theory Spec2Isabelle
  imports Main "HOL-Library.Multiset"
begin

section \<open>Python values, errors and effects\<close>

text \<open>
  The embedding follows \<^verbatim>\<open>deepprojection/dataset.py\<close>. Every \<^verbatim>\<open>raise\<close> of the
  source, and every exception a built-in raises on the way, is a value \<open>Inl e\<close> of the
  result type \<open>py_error + 'a\<close>. \<open>IndexError\<close> and \<open>ValueError\<close> carry their message, which
  is what tells the range check of \<^verbatim>\<open>SPIImgDataset.__getitem__\<close> from an out-of-range
  list index. Python strings are modelled as \<open>string\<close> (ASCII), Python integers as \<open>int\<close>.
\<close>

datatype py_error =
    IndexError string
  | KeyError
  | ValueError string
  | TypeError string
  | StopIteration
  | ExternalError string

text \<open>
  What a call does to the outside world is a trace of events: a line printed, a
  \<^verbatim>\<open>psana.DataSource\<close> opened (with its data-source id), an event fetched from an opened
  source (data-source id and timestamp).
\<close>

datatype event =
    Print string
  | DataSourceOpen string
  | EventFetch string nat


text \<open>
  The environment the code reads: the variable \<^verbatim>\<open>USER\<close>, the label files (for a path,
  \<open>None\<close> when no file exists there, otherwise what \<^verbatim>\<open>json.load\<close> meets: an error, or
  the members of the JSON object in file order), and psana (for a data-source id, the
  error opening raises or the timestamps of its first run; and the detector image of an
  event).
\<close>

record env =
  environ_USER :: "string option"
  label_file :: "string \<Rightarrow> (py_error + (string \<times> int) list) option"
  psana_times :: "string \<Rightarrow> py_error + nat list"
  psana_image :: "string \<Rightarrow> string \<Rightarrow> nat \<Rightarrow> nat list list"

subsection \<open>Sequences\<close>

text \<open>\<^verbatim>\<open>xs[i]\<close>: a negative index counts from the end, anything else out of range raises.\<close>

definition py_getitem :: "'a list \<Rightarrow> int \<Rightarrow> py_error + 'a" where
  "py_getitem xs i =
     (let n = int (length xs) in
      if 0 \<le> i \<and> i < n then Inr (xs ! nat i)
      else if - n \<le> i \<and> i < 0 then Inr (xs ! nat (n + i))
      else Inl (IndexError ''list index out of range''))"

text \<open>\<^verbatim>\<open>s.split(c)\<close> for a one-character separator.\<close>

fun py_split :: "char \<Rightarrow> string \<Rightarrow> string list" where
  "py_split c [] = [[]]"
| "py_split c (x # xs) =
     (if x = c then [] # py_split c xs
      else (case py_split c xs of
              [] \<Rightarrow> [[x]]
            | p # ps \<Rightarrow> (x # p) # ps))"

subsection \<open>Dictionaries\<close>

text \<open>
  A \<^verbatim>\<open>dict\<close> keeps insertion order, and the code iterates over \<^verbatim>\<open>items()\<close>: a
  dictionary is the list of its items. Assigning to a key that is present replaces the
  value where the key stands; a new key goes to the end.
\<close>

fun dict_set :: "('k \<times> 'v) list \<Rightarrow> 'k \<Rightarrow> 'v \<Rightarrow> ('k \<times> 'v) list" where
  "dict_set [] k v = [(k, v)]"
| "dict_set ((k', v') # d) k v =
     (if k' = k then (k', v) # d else (k', v') # dict_set d k v)"

fun dict_getitem :: "('k \<times> 'v) list \<Rightarrow> 'k \<Rightarrow> py_error + 'v" where
  "dict_getitem [] k = Inl KeyError"
| "dict_getitem ((k', v') # d) k = (if k' = k then Inr v' else dict_getitem d k)"

definition dict_contains :: "('k \<times> 'v) list \<Rightarrow> 'k \<Rightarrow> bool" where
  "dict_contains d k = (k \<in> set (map fst d))"

text \<open>\<^verbatim>\<open>dict(pairs)\<close>, and the dictionary \<^verbatim>\<open>json.load\<close> builds from an object's members.\<close>

definition py_dict :: "('k \<times> 'v) list \<Rightarrow> ('k \<times> 'v) list" where
  "py_dict pairs = foldl (\<lambda>d (k, v). dict_set d k v) [] pairs"

subsection \<open>Integers and their text\<close>

definition is_space :: "char \<Rightarrow> bool" where
  "is_space c = (let n = (of_char c :: nat) in (9 \<le> n \<and> n \<le> 13) \<or> (28 \<le> n \<and> n \<le> 32))"

definition is_digit :: "char \<Rightarrow> bool" where
  "is_digit c = (let n = (of_char c :: nat) in 48 \<le> n \<and> n \<le> 57)"

definition digit_val :: "char \<Rightarrow> nat" where
  "digit_val c = of_char c - 48"

definition py_strip :: "string \<Rightarrow> string" where
  "py_strip s = rev (dropWhile is_space (rev (dropWhile is_space s)))"

text \<open>Digits after the first one; a single underscore may stand between two digits.\<close>

fun digits_value :: "nat \<Rightarrow> string \<Rightarrow> nat option" where
  "digits_value acc [] = Some acc"
| "digits_value acc (c # cs) =
     (if is_digit c then digits_value (10 * acc + digit_val c) cs
      else if c = CHR ''_'' then
        (case cs of
           [] \<Rightarrow> None
         | d # ds \<Rightarrow> if is_digit d then digits_value (10 * acc + digit_val d) ds else None)
      else None)"

definition invalid_literal :: py_error where
  "invalid_literal = ValueError ''invalid literal for int() with base 10''"

definition unsigned_value :: "string \<Rightarrow> nat option" where
  "unsigned_value body =
     (case body of
        [] \<Rightarrow> None
      | d # ds \<Rightarrow> if is_digit d then digits_value (digit_val d) ds else None)"

text \<open>\<^verbatim>\<open>int(s)\<close> for a string: surrounding whitespace, an optional sign, decimal digits.\<close>

definition py_int :: "string \<Rightarrow> py_error + int" where
  "py_int s =
     (case py_strip s of
        [] \<Rightarrow> Inl invalid_literal
      | c # cs \<Rightarrow>
          if c = CHR ''-'' then
            (case unsigned_value cs of None \<Rightarrow> Inl invalid_literal | Some n \<Rightarrow> Inr (- int n))
          else if c = CHR ''+'' then
            (case unsigned_value cs of None \<Rightarrow> Inl invalid_literal | Some n \<Rightarrow> Inr (int n))
          else
            (case unsigned_value (c # cs) of None \<Rightarrow> Inl invalid_literal | Some n \<Rightarrow> Inr (int n)))"

definition digit_char :: "nat \<Rightarrow> char" where
  "digit_char d = char_of (48 + d)"

function str_nat :: "nat \<Rightarrow> string" where
  "str_nat n = (if n < 10 then [digit_char n] else str_nat (n div 10) @ [digit_char (n mod 10)])"
  by pat_completeness auto
termination
  by (relation "measure (\<lambda>n. n)") auto

declare str_nat.simps [simp del]

text \<open>\<^verbatim>\<open>str(i)\<close> and \<^verbatim>\<open>f"{i:04d}"\<close>: the sign counts in the width of four.\<close>

definition str_int :: "int \<Rightarrow> string" where
  "str_int i = (if i < 0 then ''-'' @ str_nat (nat (- i)) else str_nat (nat i))"

definition fmt_04d :: "int \<Rightarrow> string" where
  "fmt_04d i =
     (let s = str_nat (nat \<bar>i\<bar>) in
      if i < 0 then ''-'' @ replicate (3 - length s) CHR ''0'' @ s
      else replicate (4 - length s) CHR ''0'' @ s)"

subsection \<open>Paths\<close>

text \<open>\<^verbatim>\<open>os.path.join\<close> (POSIX): an absolute component discards what stands before it.\<close>

definition path_join2 :: "string \<Rightarrow> string \<Rightarrow> string" where
  "path_join2 a b =
     (if b \<noteq> [] \<and> hd b = CHR ''/'' then b
      else if a = [] \<or> last a = CHR ''/'' then a @ b
      else a @ ''/'' @ b)"

definition os_path_join :: "string \<Rightarrow> string list \<Rightarrow> string" where
  "os_path_join a ps = foldl path_join2 a ps"

subsection \<open>Sorting with a key\<close>

text \<open>
  \<^verbatim>\<open>sorted(xs, key=f)\<close> computes every key first (a key that raises ends the call) and
  sorts stably; \<open>sort_key\<close> is the stable sort of the library.
\<close>

fun keys_of :: "('a \<Rightarrow> py_error + int) \<Rightarrow> 'a list \<Rightarrow> py_error + int list" where
  "keys_of f [] = Inr []"
| "keys_of f (x # xs) =
     (case f x of
        Inl e \<Rightarrow> Inl e
      | Inr n \<Rightarrow> (case keys_of f xs of Inl e \<Rightarrow> Inl e | Inr ns \<Rightarrow> Inr (n # ns)))"

definition py_sorted :: "('a \<Rightarrow> py_error + int) \<Rightarrow> 'a list \<Rightarrow> py_error + 'a list" where
  "py_sorted f xs =
     (case keys_of f xs of
        Inl e \<Rightarrow> Inl e
      | Inr ns \<Rightarrow> Inr (map snd (sort_key fst (zip ns xs))))"

section \<open>ImgLabelFileParser\<close>

record ImgLabelFileParser =
  parser_exp :: string
  parser_run :: string
  drc_root :: string
  path_labelfile :: string
  imglabel_dict :: "(string \<times> int) list"

text \<open>
  \<^verbatim>\<open>_locate_labelfile\<close>. \<^verbatim>\<open>os.environ.get("USER")\<close> is \<^verbatim>\<open>None\<close> when the variable is
  unset, and \<^verbatim>\<open>os.path.join\<close> raises \<^verbatim>\<open>TypeError\<close> on it; \<^verbatim>\<open>int(self.run)\<close> is evaluated
  first and raises \<^verbatim>\<open>ValueError\<close> on a run that is no integer.
\<close>

definition locate_labelfile :: "env \<Rightarrow> string \<Rightarrow> string \<Rightarrow> string \<Rightarrow> py_error + string" where
  "locate_labelfile E exp run root =
     (case py_int run of
        Inl e \<Rightarrow> Inl e
      | Inr r \<Rightarrow>
          (case environ_USER E of
             None \<Rightarrow> Inl (TypeError ''expected str, bytes or os.PathLike object, not NoneType'')
           | Some username \<Rightarrow>
               let drc_run = ''r'' @ fmt_04d r;
                   drc_psocake = os_path_join exp [username, ''psocake'', drc_run];
                   basename = exp @ ''_'' @ fmt_04d r;
                   fl_json = basename @ ''.label.json''
               in Inr (os_path_join root [drc_psocake, fl_json])))"

definition missing_message :: "string \<Rightarrow> string" where
  "missing_message path = ''File doesn't exist!!! Missing '' @ path @ ''.''"

text \<open>
  \<^verbatim>\<open>__init__\<close> with \<^verbatim>\<open>_load_imglabel\<close>: the parser with its sorted dictionary, or the
  error raised, and what was printed. When the file is absent the dictionary stays the
  empty one of \<^verbatim>\<open>__init__\<close> and one line is printed.
\<close>

definition ImgLabelFileParser_init ::
  "env \<Rightarrow> string \<Rightarrow> string \<Rightarrow> string \<Rightarrow> (py_error + ImgLabelFileParser) \<times> event list" where
  "ImgLabelFileParser_init E exp run root =
     (case locate_labelfile E exp run root of
        Inl e \<Rightarrow> (Inl e, [])
      | Inr path \<Rightarrow>
          let self = \<lparr>parser_exp = exp, parser_run = run, drc_root = root,
                      path_labelfile = path, imglabel_dict = []\<rparr>
          in (case label_file E path of
                None \<Rightarrow> (Inr self, [Print (missing_message path)])
              | Some (Inl e) \<Rightarrow> (Inl e, [])
              | Some (Inr members) \<Rightarrow>
                  (case py_sorted (\<lambda>x. py_int (fst x)) (py_dict members) of
                     Inl e \<Rightarrow> (Inl e, [])
                   | Inr items \<Rightarrow> (Inr (self\<lparr>imglabel_dict := py_dict items\<rparr>), []))))"

section \<open>PsanaImg\<close>

text \<open>
  The image accessing layer of one run. \<^verbatim>\<open>datasource\<close> and \<^verbatim>\<open>run_current\<close> are handles
  into psana; the data-source id stands for both. Constructing the accessor opens
  the data source, which is the event \<open>DataSourceOpen\<close>, whether or not opening succeeds.
\<close>

record PsanaImg =
  datasource_id :: string
  timestamps :: "nat list"
  detector :: string

definition PsanaImg_init ::
  "env \<Rightarrow> string \<Rightarrow> string \<Rightarrow> string \<Rightarrow> string \<Rightarrow> (py_error + PsanaImg) \<times> event list" where
  "PsanaImg_init E exp run mode detector_name =
     (let dsid = ''exp='' @ exp @ '':run='' @ run @ '':'' @ mode in
      case psana_times E dsid of
        Inl e \<Rightarrow> (Inl e, [DataSourceOpen dsid])
      | Inr ts \<Rightarrow>
          (Inr \<lparr>datasource_id = dsid, timestamps = ts, detector = detector_name\<rparr>,
           [DataSourceOpen dsid]))"

text \<open>\<^verbatim>\<open>get\<close> indexes the timestamps as Python indexes a sequence and assigns nothing.\<close>

definition PsanaImg_get ::
  "env \<Rightarrow> PsanaImg \<Rightarrow> int \<Rightarrow> (py_error + nat list list) \<times> event list" where
  "PsanaImg_get E self event_num =
     (case py_getitem (timestamps self) event_num of
        Inl e \<Rightarrow> (Inl e, [])
      | Inr timestamp \<Rightarrow>
          (Inr (psana_image E (datasource_id self) (detector self) timestamp),
           [EventFetch (datasource_id self) timestamp]))"

section \<open>SPIImg\<close>

type_synonym sample = "string \<times> string \<times> int \<times> int"

record SPIImg =
  dataset_dict :: "(string \<times> (string \<times> int) list) list"
  imglabel_list :: "sample list"
  psana_imgreader_dict :: "(string \<times> PsanaImg) list"

text \<open>Unpacking a sequence into a tuple of names raises \<^verbatim>\<open>ValueError\<close> on another length.\<close>

definition not_enough_values :: py_error where
  "not_enough_values = ValueError ''not enough values to unpack''"

definition too_many_values :: py_error where
  "too_many_values = ValueError ''too many values to unpack''"

text \<open>\<^verbatim>\<open>exp, run, mode, detector_name, drc_root = line\<close>\<close>

fun unpack5 :: "'a list \<Rightarrow> py_error + ('a \<times> 'a \<times> 'a \<times> 'a \<times> 'a)" where
  "unpack5 [a, b, c, d, e] = Inr (a, b, c, d, e)"
| "unpack5 xs = Inl (if length xs < 5 then not_enough_values else too_many_values)"

text \<open>\<^verbatim>\<open>exp, run = dataset_id.split(".")\<close>\<close>

fun unpack2 :: "'a list \<Rightarrow> py_error + ('a \<times> 'a)" where
  "unpack2 [a, b] = Inr (a, b)"
| "unpack2 xs = Inl (if length xs < 2 then not_enough_values else too_many_values)"

definition basename_of :: "string \<Rightarrow> string \<Rightarrow> string" where
  "basename_of exp run = exp @ ''.'' @ run"

text \<open>
  The first loop of \<^verbatim>\<open>__init__\<close>, over the lines after the header, with the two
  dictionaries it fills.
\<close>

fun read_datasets ::
  "env \<Rightarrow> string list list \<Rightarrow> (string \<times> PsanaImg) list \<Rightarrow> (string \<times> (string \<times> int) list) list
   \<Rightarrow> (py_error + ((string \<times> PsanaImg) list \<times> (string \<times> (string \<times> int) list) list)) \<times> event list" where
  "read_datasets E [] readers datasets = (Inr (readers, datasets), [])"
| "read_datasets E (line # lines) readers datasets =
     (case unpack5 line of
        Inl e \<Rightarrow> (Inl e, [])
      | Inr (exp, run, mode, detector_name, root) \<Rightarrow>
          let basename = basename_of exp run in
          (case PsanaImg_init E exp run mode detector_name of
             (Inl e, t1) \<Rightarrow> (Inl e, t1)
           | (Inr reader, t1) \<Rightarrow>
               (case ImgLabelFileParser_init E exp run root of
                  (Inl e, t2) \<Rightarrow> (Inl e, t1 @ t2)
                | (Inr imglabel_fileparser, t2) \<Rightarrow>
                    (case read_datasets E lines (dict_set readers basename reader)
                            (dict_set datasets basename (imglabel_dict imglabel_fileparser)) of
                       (r, t3) \<Rightarrow> (r, t1 @ t2 @ t3)))))"

text \<open>The inner loop of the enumeration: one sample for each item of a run's dictionary.\<close>

fun enumerate_content ::
  "string \<Rightarrow> string \<Rightarrow> (string \<times> int) list \<Rightarrow> sample list \<Rightarrow> py_error + sample list" where
  "enumerate_content exp run [] acc = Inr acc"
| "enumerate_content exp run ((event_num, label) # content) acc =
     (case py_int event_num of
        Inl e \<Rightarrow> Inl e
      | Inr n \<Rightarrow> enumerate_content exp run content (acc @ [(exp, run, n, label)]))"

text \<open>The outer loop, over \<^verbatim>\<open>self.dataset_dict.items()\<close>.\<close>

fun enumerate_datasets ::
  "(string \<times> (string \<times> int) list) list \<Rightarrow> sample list \<Rightarrow> py_error + sample list" where
  "enumerate_datasets [] acc = Inr acc"
| "enumerate_datasets ((dataset_id, dataset_content) # rest) acc =
     (case unpack2 (py_split CHR ''.'' dataset_id) of
        Inl e \<Rightarrow> Inl e
      | Inr (exp, run) \<Rightarrow>
          (case enumerate_content exp run dataset_content acc of
             Inl e \<Rightarrow> Inl e
           | Inr acc' \<Rightarrow> enumerate_datasets rest acc'))"

text \<open>
  \<^verbatim>\<open>__init__\<close>. The argument is what \<^verbatim>\<open>csv.reader\<close> yields for the file, header
  included; \<^verbatim>\<open>next(lines)\<close> on a file without a line raises \<^verbatim>\<open>StopIteration\<close>.
\<close>

definition SPIImg_init :: "env \<Rightarrow> string list list \<Rightarrow> (py_error + SPIImg) \<times> event list" where
  "SPIImg_init E fl_csv =
     (case fl_csv of
        [] \<Rightarrow> (Inl StopIteration, [])
      | header # lines \<Rightarrow>
          (case read_datasets E lines [] [] of
             (Inl e, t) \<Rightarrow> (Inl e, t)
           | (Inr (readers, datasets), t) \<Rightarrow>
               (case enumerate_datasets datasets [] of
                  Inl e \<Rightarrow> (Inl e, t)
                | Inr samples \<Rightarrow>
                    (Inr \<lparr>dataset_dict = datasets, imglabel_list = samples,
                          psana_imgreader_dict = readers\<rparr>, t))))"

definition SPIImg_len :: "'a SPIImg_scheme \<Rightarrow> nat" where
  "SPIImg_len self = length (imglabel_list self)"

definition loading_message :: "string \<Rightarrow> string \<Rightarrow> int \<Rightarrow> string" where
  "loading_message exp run event_num =
     ''Loading image '' @ exp @ ''.'' @ run @ ''.'' @ str_int event_num @ ''...''"

text \<open>
  \<^verbatim>\<open>__getitem__\<close>: the flattened image and the label. No statement of it assigns to
  \<^verbatim>\<open>self\<close> or constructs an accessor; the accessor is looked up under the basename.
\<close>

definition SPIImg_getitem ::
  "env \<Rightarrow> 'a SPIImg_scheme \<Rightarrow> int \<Rightarrow> (py_error + (nat list \<times> int)) \<times> event list" where
  "SPIImg_getitem E self idx =
     (case py_getitem (imglabel_list self) idx of
        Inl e \<Rightarrow> (Inl e, [])
      | Inr (exp, run, event_num, label) \<Rightarrow>
          let t0 = [Print (loading_message exp run event_num)];
              basename = basename_of exp run
          in (case dict_getitem (psana_imgreader_dict self) basename of
                Inl e \<Rightarrow> (Inl e, t0)
              | Inr reader \<Rightarrow>
                  (case PsanaImg_get E reader event_num of
                     (Inl e, t1) \<Rightarrow> (Inl e, t0 @ t1)
                   | (Inr img, t1) \<Rightarrow> (Inr (concat img, label), t0 @ t1))))"

section \<open>SPIImgDataset\<close>

text \<open>
  The module \<^verbatim>\<open>random\<close> is a process-wide generator. Its state has the type \<open>'g\<close>;
  \<open>seed_fn s\<close> is the state an integer seed \<open>s\<close> stands for, \<open>randbelow g n\<close> the number the
  generator draws below \<open>n\<close> in state \<open>g\<close> with the state it leaves.
\<close>

record 'g random =
  seed_fn :: "int \<Rightarrow> 'g"
  randbelow :: "'g \<Rightarrow> nat \<Rightarrow> nat \<times> 'g"

text \<open>\<^verbatim>\<open>random.seed(s)\<close>: the state after the call; the state before it is discarded.\<close>

definition random_seed :: "'g random \<Rightarrow> int \<Rightarrow> 'g \<Rightarrow> 'g" where
  "random_seed R s g = seed_fn R s"

definition random_ok :: "'g random \<Rightarrow> bool" where
  "random_ok R = (\<forall>g n. 0 < n \<longrightarrow> fst (randbelow R g n) < n)"

text \<open>
  \<^verbatim>\<open>random.sample(population, 1)[0]\<close>: \<^verbatim>\<open>ValueError\<close> on an empty population, before the
  generator is used; otherwise the element at the index drawn below the length.
\<close>

definition sample_error :: py_error where
  "sample_error = ValueError ''Sample larger than population or is negative''"

definition random_sample1 :: "'g random \<Rightarrow> 'g \<Rightarrow> 'a list \<Rightarrow> py_error + ('a \<times> 'g)" where
  "random_sample1 R g population =
     (if length population < 1 then Inl sample_error
      else (case randbelow R g (length population) of (j, g') \<Rightarrow> Inr (population ! j, g')))"

record SPIImgDataset = SPIImg +
  num_stockimgs :: nat
  size_sample :: int
  seed :: int
  label_seqi_dict :: "(int \<times> nat list) list"

text \<open>The loop over \<^verbatim>\<open>enumerate(self.imglabel_list)\<close> that fills the lookup table.\<close>

fun build_label_seqi_dict ::
  "(int \<times> nat list) list \<Rightarrow> nat \<Rightarrow> sample list \<Rightarrow> (int \<times> nat list) list" where
  "build_label_seqi_dict d seqi [] = d"
| "build_label_seqi_dict d seqi ((exp, run, event_num, label) # rest) =
     (if \<not> dict_contains d label then build_label_seqi_dict (dict_set d label [seqi]) (Suc seqi) rest
      else (case dict_getitem d label of
              Inl e \<Rightarrow> build_label_seqi_dict d (Suc seqi) rest
            | Inr ids \<Rightarrow> build_label_seqi_dict (dict_set d label (ids @ [seqi])) (Suc seqi) rest))"

definition SPIImgDataset_init ::
  "env \<Rightarrow> string list list \<Rightarrow> int \<Rightarrow> int \<Rightarrow> (py_error + SPIImgDataset) \<times> event list" where
  "SPIImgDataset_init E fl_csv sz sd =
     (case SPIImg_init E fl_csv of
        (Inl e, t) \<Rightarrow> (Inl e, t)
      | (Inr base, t) \<Rightarrow>
          (Inr \<lparr>dataset_dict = dataset_dict base, imglabel_list = imglabel_list base,
                psana_imgreader_dict = psana_imgreader_dict base,
                num_stockimgs = length (imglabel_list base),
                size_sample = sz, seed = sd,
                label_seqi_dict = build_label_seqi_dict [] 0 (imglabel_list base)\<rparr>, t))"

definition SPIImgDataset_len :: "SPIImgDataset \<Rightarrow> int" where
  "SPIImgDataset_len self = size_sample self"

definition range_error :: py_error where
  "range_error = IndexError ''Index is larger than the size of samples.''"

text \<open>The loop that collects the negatives: every bucket but the anchor's.\<close>

fun neg_bucket_of :: "int \<Rightarrow> (int \<times> nat list) list \<Rightarrow> nat list \<Rightarrow> nat list" where
  "neg_bucket_of label_anchor [] neg_bucket = neg_bucket"
| "neg_bucket_of label_anchor ((label, ids) # rest) neg_bucket =
     (if label = label_anchor then neg_bucket_of label_anchor rest neg_bucket
      else neg_bucket_of label_anchor rest (neg_bucket @ ids))"

text \<open>
  The values of the local variables of \<^verbatim>\<open>__getitem__\<close> where it returns: the three
  indices drawn, the two buckets, the images and the anchor's label.
\<close>

record triplet =
  id_anchor :: nat
  id_pos :: nat
  id_neg :: nat
  pos_bucket :: "nat list"
  neg_bucket :: "nat list"
  img_anchor :: "nat list"
  img_pos :: "nat list"
  img_neg :: "nat list"
  label_anchor :: int

text \<open>
  The statements of \<^verbatim>\<open>__getitem__\<close> after \<^verbatim>\<open>random.seed\<close>, from the state \<open>g0\<close> of the
  generator: the result, the state the generator is left in, and the trace.
\<close>

definition draw_triplet ::
  "'g random \<Rightarrow> env \<Rightarrow> SPIImgDataset \<Rightarrow> 'g \<Rightarrow> (py_error + triplet) \<times> 'g \<times> event list" where
  "draw_triplet R E self g0 =
     (case random_sample1 R g0 [0 ..< num_stockimgs self] of
        Inl e \<Rightarrow> (Inl e, g0, [])
      | Inr (a, g1) \<Rightarrow>
      (case SPIImg_getitem E self (int a) of
        (Inl e, t1) \<Rightarrow> (Inl e, g1, t1)
      | (Inr (img_a, label_a), t1) \<Rightarrow>
      (case dict_getitem (label_seqi_dict self) label_a of
        Inl e \<Rightarrow> (Inl e, g1, t1)
      | Inr pos \<Rightarrow>
      let neg = neg_bucket_of label_a (label_seqi_dict self) [] in
      (case random_sample1 R g1 pos of
        Inl e \<Rightarrow> (Inl e, g1, t1)
      | Inr (p, g2) \<Rightarrow>
      (case random_sample1 R g2 neg of
        Inl e \<Rightarrow> (Inl e, g2, t1)
      | Inr (n, g3) \<Rightarrow>
      (case SPIImg_getitem E self (int p) of
        (Inl e, t2) \<Rightarrow> (Inl e, g3, t1 @ t2)
      | (Inr (img_p, label_p), t2) \<Rightarrow>
      (case SPIImg_getitem E self (int n) of
        (Inl e, t3) \<Rightarrow> (Inl e, g3, t1 @ t2 @ t3)
      | (Inr (img_n, label_n), t3) \<Rightarrow>
          (Inr \<lparr>id_anchor = a, id_pos = p, id_neg = n, pos_bucket = pos, neg_bucket = neg,
                img_anchor = img_a, img_pos = img_p, img_neg = img_n, label_anchor = label_a\<rparr>,
           g3, t1 @ t2 @ t3))))))))"

text \<open>
  \<^verbatim>\<open>__getitem__\<close> with its locals: the index check, \<^verbatim>\<open>random.seed(self.seed)\<close>, the
  draws. \<open>g\<close> is the state of the process-wide generator when the call starts.
\<close>

definition SPIImgDataset_getitem_locals ::
  "'g random \<Rightarrow> env \<Rightarrow> SPIImgDataset \<Rightarrow> 'g \<Rightarrow> int \<Rightarrow> (py_error + triplet) \<times> 'g \<times> event list" where
  "SPIImgDataset_getitem_locals R E self g idx =
     (if idx \<ge> size_sample self then (Inl range_error, g, [])
      else draw_triplet R E self (random_seed R (seed self) g))"

text \<open>\<^verbatim>\<open>__getitem__\<close>: what the caller receives.\<close>

definition SPIImgDataset_getitem ::
  "'g random \<Rightarrow> env \<Rightarrow> SPIImgDataset \<Rightarrow> 'g \<Rightarrow> int
   \<Rightarrow> (py_error + (nat list \<times> nat list \<times> nat list \<times> int)) \<times> 'g \<times> event list" where
  "SPIImgDataset_getitem R E self g idx =
     (case SPIImgDataset_getitem_locals R E self g idx of
        (Inl e, g', t) \<Rightarrow> (Inl e, g', t)
      | (Inr l, g', t) \<Rightarrow> (Inr (img_anchor l, img_pos l, img_neg l, label_anchor l), g', t))"

section \<open>Vocabulary of the properties\<close>

definition sample_label :: "sample \<Rightarrow> int" where
  "sample_label s = snd (snd (snd s))"

definition sample_event_num :: "sample \<Rightarrow> int" where
  "sample_event_num s = fst (snd (snd s))"

definition list_index_error :: py_error where
  "list_index_error = IndexError ''list index out of range''"

text \<open>
  Every bucket of a lookup table is non-empty and holds indices below \<open>n\<close> whose label,
  read by \<open>lab\<close>, is the bucket's key.
\<close>

definition buckets_ok :: "(nat \<Rightarrow> int) \<Rightarrow> nat \<Rightarrow> (int \<times> nat list) list \<Rightarrow> bool" where
  "buckets_ok lab n d = (\<forall>(l, ids) \<in> set d. ids \<noteq> [] \<and> (\<forall>i \<in> set ids. i < n \<and> lab i = l))"

subsection \<open>Label files\<close>

text \<open>The numeric value of the event-number key of an item, and whether the key is an integer at all.\<close>

definition event_num_of :: "string \<times> int \<Rightarrow> int" where
  "event_num_of x = (case py_int (fst x) of Inl e \<Rightarrow> 0 | Inr n \<Rightarrow> n)"

definition int_key :: "string \<times> int \<Rightarrow> bool" where
  "int_key x = (case py_int (fst x) of Inl e \<Rightarrow> False | Inr n \<Rightarrow> True)"

subsection \<open>Manifest lines\<close>

text \<open>
  The columns of a manifest line, and what the constructor makes of a line: the id of
  the data source it opens, the key under which the run is stored, the accessor.
\<close>

definition col_exp :: "string list \<Rightarrow> string" where
  "col_exp line = line ! 0"

definition col_run :: "string list \<Rightarrow> string" where
  "col_run line = line ! 1"

definition col_mode :: "string list \<Rightarrow> string" where
  "col_mode line = line ! 2"

definition col_detector :: "string list \<Rightarrow> string" where
  "col_detector line = line ! 3"

definition col_root :: "string list \<Rightarrow> string" where
  "col_root line = line ! 4"

definition line_dsid :: "string list \<Rightarrow> string" where
  "line_dsid line = ''exp='' @ col_exp line @ '':run='' @ col_run line @ '':'' @ col_mode line"

definition line_basename :: "string list \<Rightarrow> string" where
  "line_basename line = basename_of (col_exp line) (col_run line)"

definition line_reader :: "env \<Rightarrow> string list \<Rightarrow> PsanaImg" where
  "line_reader E line =
     \<lparr>datasource_id = line_dsid line,
      timestamps = (case psana_times E (line_dsid line) of Inl e \<Rightarrow> [] | Inr ts \<Rightarrow> ts),
      detector = col_detector line\<rparr>"

text \<open>
  The specification's view of a run. \<open>run_label_pairs\<close> is the set of (event, label)
  pairs the run's label file defines, none when there is no file; \<open>run_samples\<close> lists
  them in ascending numeric order of the event number, tagged with experiment and run.
\<close>

definition run_label_pairs :: "env \<Rightarrow> string list \<Rightarrow> (string \<times> int) list" where
  "run_label_pairs E line =
     (case locate_labelfile E (col_exp line) (col_run line) (col_root line) of
        Inl e \<Rightarrow> []
      | Inr path \<Rightarrow>
          (case label_file E path of
             None \<Rightarrow> []
           | Some (Inl e) \<Rightarrow> []
           | Some (Inr members) \<Rightarrow> py_dict members))"

definition run_samples :: "env \<Rightarrow> string list \<Rightarrow> sample list" where
  "run_samples E line =
     map (\<lambda>x. (col_exp line, col_run line, event_num_of x, snd x))
       (sort_key event_num_of (run_label_pairs E line))"

text \<open>What the constructor prints for a line: the diagnostic of a missing label file.\<close>

definition line_prints :: "env \<Rightarrow> string list \<Rightarrow> event list" where
  "line_prints E line =
     (case locate_labelfile E (col_exp line) (col_run line) (col_root line) of
        Inl e \<Rightarrow> []
      | Inr path \<Rightarrow>
          (case label_file E path of
             None \<Rightarrow> [Print (missing_message path)]
           | Some r \<Rightarrow> []))"

text \<open>
  A line the first loop gets through: five columns, a data source that opens, a run
  number and a user name that give a path, and there either no file or a file whose
  keys are all integers.
\<close>

definition line_ok :: "env \<Rightarrow> string list \<Rightarrow> bool" where
  "line_ok E line =
     (length line = 5 \<and>
      (case psana_times E (line_dsid line) of Inl e \<Rightarrow> False | Inr ts \<Rightarrow> True) \<and>
      (case locate_labelfile E (col_exp line) (col_run line) (col_root line) of
         Inl e \<Rightarrow> False
       | Inr path \<Rightarrow>
           (case label_file E path of
              None \<Rightarrow> True
            | Some (Inl e) \<Rightarrow> False
            | Some (Inr members) \<Rightarrow> list_all int_key members)))"


definition no_dot :: "string list \<Rightarrow> bool" where
  "no_dot line = (CHR ''.'' \<notin> set (col_exp line))"


section \<open>Concrete inputs\<close>

text \<open>
  The scenario of the specification: run A with the label file
  \<^verbatim>\<open>{"0":1,"2":1,"5":0}\<close>, run B with \<^verbatim>\<open>{"1":0}\<close>; besides, a run C whose file lists
  the key \<^verbatim>\<open>"10"\<close> before the key \<^verbatim>\<open>"2"\<close>, and no file for any other run. Every run has
  six events.
\<close>

definition ex_env :: env where
  "ex_env =
     \<lparr>environ_USER = Some ''u'',
      label_file = (\<lambda>p.
        if p = ''d/A/u/psocake/r0001/A_0001.label.json'' then Some (Inr [(''0'', 1), (''2'', 1), (''5'', 0)])
        else if p = ''d/B/u/psocake/r0001/B_0001.label.json'' then Some (Inr [(''1'', 0)])
        else if p = ''d/C/u/psocake/r0007/C_0007.label.json'' then Some (Inr [(''10'', 1), (''2'', 0)])
        else None),
      psana_times = (\<lambda>s. Inr [10, 20, 30, 40, 50, 60]),
      psana_image = (\<lambda>s d t. [[t, 1], [2, 3]])\<rparr>"

definition ex_header :: "string list" where
  "ex_header = [''exp'', ''run'', ''mode'', ''detector_name'', ''drc_root'']"

definition ex_lines :: "string list list" where
  "ex_lines =
     [[''A'', ''1'', ''idx'', ''pnccd'', ''d''],
      [''B'', ''1'', ''idx'', ''pnccd'', ''d'']]"

definition ex_csv :: "string list list" where
  "ex_csv = ex_header # ex_lines"


text \<open>A generator for the examples: the state counts the draws, a draw is the state modulo the bound.\<close>

definition ex_random :: "nat random" where
  "ex_random = \<lparr>seed_fn = (\<lambda>s. nat \<bar>s\<bar>), randbelow = (\<lambda>g n. (g mod n, Suc g))\<rparr>"

definition ex_reader_A :: PsanaImg where
  "ex_reader_A =
     \<lparr>datasource_id = ''exp=A:run=1:idx'', timestamps = [10, 20, 30, 40, 50, 60], detector = ''pnccd''\<rparr>"

definition ex_reader_B :: PsanaImg where
  "ex_reader_B =
     \<lparr>datasource_id = ''exp=B:run=1:idx'', timestamps = [10, 20, 30, 40, 50, 60], detector = ''pnccd''\<rparr>"

text \<open>The catalog \<^verbatim>\<open>SPIImg(fl_csv)\<close> of the scenario and the trace of its construction.\<close>

definition ex_catalog :: SPIImg where
  "ex_catalog =
     \<lparr>dataset_dict = [(''A.1'', [(''0'', 1), (''2'', 1), (''5'', 0)]), (''B.1'', [(''1'', 0)])],
      imglabel_list = [(''A'', ''1'', 0, 1), (''A'', ''1'', 2, 1), (''A'', ''1'', 5, 0), (''B'', ''1'', 1, 0)],
      psana_imgreader_dict = [(''A.1'', ex_reader_A), (''B.1'', ex_reader_B)]\<rparr>"

definition ex_opens :: "event list" where
  "ex_opens = [DataSourceOpen ''exp=A:run=1:idx'', DataSourceOpen ''exp=B:run=1:idx'']"

text \<open>
  A manifest that lists run 1 of experiment A twice, under two root directories, each
  with a label file of its own: three pairs under \<^verbatim>\<open>d\<close>, one pair under \<^verbatim>\<open>e\<close>.
\<close>

definition ex_env_roots :: env where
  "ex_env_roots =
     ex_env\<lparr>label_file := (\<lambda>p.
        if p = ''d/A/u/psocake/r0001/A_0001.label.json'' then Some (Inr [(''0'', 1), (''2'', 1), (''5'', 0)])
        else if p = ''e/A/u/psocake/r0001/A_0001.label.json'' then Some (Inr [(''1'', 0)])
        else None)\<rparr>"

definition ex_lines_roots :: "string list list" where
  "ex_lines_roots =
     [[''A'', ''1'', ''idx'', ''pnccd'', ''d''],
      [''A'', ''1'', ''idx'', ''pnccd'', ''e'']]"

definition ex_catalog_roots :: SPIImg where
  "ex_catalog_roots =
     \<lparr>dataset_dict = [(''A.1'', [(''1'', 0)])],
      imglabel_list = [(''A'', ''1'', 1, 0)],
      psana_imgreader_dict = [(''A.1'', ex_reader_A)]\<rparr>"

text \<open>The sampler \<^verbatim>\<open>SPIImgDataset(fl_csv, 10, 0)\<close> of the scenario.\<close>

definition ex_dataset :: SPIImgDataset where
  "ex_dataset =
     \<lparr>dataset_dict = [(''A.1'', [(''0'', 1), (''2'', 1), (''5'', 0)]), (''B.1'', [(''1'', 0)])],
      imglabel_list = [(''A'', ''1'', 0, 1), (''A'', ''1'', 2, 1), (''A'', ''1'', 5, 0), (''B'', ''1'', 1, 0)],
      psana_imgreader_dict = [(''A.1'', ex_reader_A), (''B.1'', ex_reader_B)],
      num_stockimgs = 4, size_sample = 10, seed = 0,
      label_seqi_dict = [(1, [0, 1]), (0, [2, 3])]\<rparr>"

text \<open>What \<^verbatim>\<open>__getitem__\<close> of that sampler computes with the generator of the examples.\<close>

definition ex_triplet :: triplet where
  "ex_triplet =
     \<lparr>id_anchor = 0, id_pos = 1, id_neg = 2, pos_bucket = [0, 1], neg_bucket = [2, 3],
      img_anchor = [10, 1, 2, 3], img_pos = [30, 1, 2, 3], img_neg = [60, 1, 2, 3],
      label_anchor = 1\<rparr>"

definition ex_trace :: "event list" where
  "ex_trace =
     [Print ''Loading image A.1.0...'', EventFetch ''exp=A:run=1:idx'' 10,
      Print ''Loading image A.1.2...'', EventFetch ''exp=A:run=1:idx'' 30,
      Print ''Loading image A.1.5...'', EventFetch ''exp=A:run=1:idx'' 60]"

text \<open>A manifest with run B alone: every sample carries the label 0.\<close>

definition ex_csv_B :: "string list list" where
  "ex_csv_B = [ex_header, [''B'', ''1'', ''idx'', ''pnccd'', ''d'']]"

definition ex_dataset_B :: SPIImgDataset where
  "ex_dataset_B =
     \<lparr>dataset_dict = [(''B.1'', [(''1'', 0)])],
      imglabel_list = [(''B'', ''1'', 1, 0)],
      psana_imgreader_dict = [(''B.1'', ex_reader_B)],
      num_stockimgs = 1, size_sample = 10, seed = 0,
      label_seqi_dict = [(0, [0])]\<rparr>"

text \<open>The same manifest where every run has one event only, so that event 1 of run B is out of range.\<close>

definition ex_env_short :: env where
  "ex_env_short = ex_env\<lparr>psana_times := (\<lambda>s. Inr [10])\<rparr>"

definition ex_dataset_short :: SPIImgDataset where
  "ex_dataset_short =
     ex_dataset_B\<lparr>psana_imgreader_dict := [(''B.1'', ex_reader_B\<lparr>timestamps := [10]\<rparr>)]\<rparr>"

section \<open>Dictionaries and sequences: basic facts\<close>

lemma dict_set_keys:
  "map fst (dict_set d k v) = (if k \<in> set (map fst d) then map fst d else map fst d @ [k])"
  by (induction d) (fastforce+)

lemma dict_set_new: "k \<notin> set (map fst d) \<Longrightarrow> dict_set d k v = d @ [(k, v)]"
  by (induction d) auto

lemma dict_getitem_set:
  "dict_getitem (dict_set d k v) k' = (if k' = k then Inr v else dict_getitem d k')"
  by (induction d) auto

lemma dict_getitem_KeyError:
  "dict_getitem d k = Inl e \<Longrightarrow> e = KeyError \<and> k \<notin> set (map fst d)"
  by (induction d) (fastforce split: if_splits)+

lemma dict_getitem_mem: "dict_getitem d k = Inr v \<Longrightarrow> (k, v) \<in> set d"
  by (induction d) (auto split: if_splits)

lemma dict_getitem_distinct:
  "distinct (map fst d) \<Longrightarrow> (k, v) \<in> set d \<Longrightarrow> dict_getitem d k = Inr v"
  by (induction d) (auto simp: rev_image_eqI)

lemma set_dict_set: "set (dict_set d k v) \<subseteq> insert (k, v) (set d)"
  by (induction d) (auto split: if_splits)

lemma py_getitem_Inl: "py_getitem xs i = Inl e \<Longrightarrow> e = list_index_error"
  by (auto simp: py_getitem_def list_index_error_def Let_def split: if_splits)

lemma py_getitem_nat: "i < length xs \<Longrightarrow> py_getitem xs (int i) = Inr (xs ! i)"
  by (simp add: py_getitem_def)

section \<open>The errors of the reading and drawing functions\<close>

lemma PsanaImg_get_Inl: "PsanaImg_get E self n = (Inl e, t) \<Longrightarrow> e = list_index_error"
  by (auto simp: PsanaImg_get_def dest: py_getitem_Inl split: sum.splits)

lemma SPIImg_getitem_Inl:
  "SPIImg_getitem E self i = (Inl e, t) \<Longrightarrow> e = list_index_error \<or> e = KeyError"
  by (auto simp: SPIImg_getitem_def Let_def
      dest: py_getitem_Inl PsanaImg_get_Inl dict_getitem_KeyError
      split: sum.splits prod.splits)

lemma random_sample1_Inl: "random_sample1 R g xs = Inl e \<Longrightarrow> e = sample_error \<and> xs = []"
  by (auto simp: random_sample1_def split: if_splits prod.splits)

lemma draw_triplet_Inl:
  "draw_triplet R E self g0 = (Inl e, g, t) \<Longrightarrow>
   e = list_index_error \<or> e = KeyError \<or> e = sample_error"
  unfolding draw_triplet_def Let_def
  by (auto dest: SPIImg_getitem_Inl dict_getitem_KeyError random_sample1_Inl
      split: sum.splits prod.splits)

lemma draw_triplet_not_range_error: "fst (draw_triplet R E self g0) \<noteq> Inl range_error"
proof
  assume a: "fst (draw_triplet R E self g0) = Inl range_error"
  obtain g t where "draw_triplet R E self g0 = (Inl range_error, g, t)"
    using a by (cases "draw_triplet R E self g0") auto
  from draw_triplet_Inl [OF this] show False
    by (simp add: range_error_def sample_error_def list_index_error_def)
qed

lemma ex_dataset_init:
  "SPIImgDataset_init ex_env ex_csv 10 0 =
     (Inr ex_dataset, [DataSourceOpen ''exp=A:run=1:idx'', DataSourceOpen ''exp=B:run=1:idx''])"
  by code_simp

section \<open>The label file parser\<close>

lemma int_key_iff: "int_key x \<longleftrightarrow> (\<exists>n. py_int (fst x) = Inr n)"
  by (cases "py_int (fst x)") (auto simp: int_key_def)

lemma keys_of_Inr_D: "keys_of f xs = Inr ns \<Longrightarrow> map f xs = map Inr ns"
  by (induction xs arbitrary: ns) (auto split: sum.splits)

lemma keys_of_Inr_I: "map f xs = map Inr ns \<Longrightarrow> keys_of f xs = Inr ns"
  by (induction xs arbitrary: ns) auto

lemma keys_of_Inr: "keys_of f xs = Inr ns \<longleftrightarrow> map f xs = map Inr ns"
  using keys_of_Inr_D keys_of_Inr_I by metis

lemma keys_of_Inl: "keys_of f xs = Inl e \<Longrightarrow> \<exists>x \<in> set xs. f x = Inl e"
  by (induction xs) (auto split: sum.splits)

lemma insort_key_decorate:
  "insort_key fst (g x, x) (map (\<lambda>y. (g y, y)) ys) = map (\<lambda>y. (g y, y)) (insort_key g x ys)"
  by (induction ys) auto

lemma sort_key_decorate:
  "sort_key fst (map (\<lambda>y. (g y, y)) xs) = map (\<lambda>y. (g y, y)) (sort_key g xs)"
  by (induction xs) (simp_all add: insort_key_decorate)

lemma zip_decorate:
  "map f xs = map Inr ns \<Longrightarrow>
   zip ns xs = map (\<lambda>y. (case f y of Inl e \<Rightarrow> 0 | Inr n \<Rightarrow> n, y)) xs"
  by (induction xs arbitrary: ns) auto

lemma py_sorted_Inr:
  assumes "py_sorted f xs = Inr ys"
  shows "ys = sort_key (\<lambda>y. case f y of Inl e \<Rightarrow> 0 | Inr n \<Rightarrow> n) xs"
proof -
  from assms obtain ns where ns: "keys_of f xs = Inr ns" and ys: "ys = map snd (sort_key fst (zip ns xs))"
    by (auto simp: py_sorted_def split: sum.splits)
  have "map f xs = map Inr ns" using ns by (simp add: keys_of_Inr)
  then show ?thesis unfolding ys
    by (simp add: zip_decorate sort_key_decorate comp_def)
qed

lemma py_sorted_total:
  assumes "\<forall>x \<in> set xs. \<exists>n. f x = Inr n"
  shows "py_sorted f xs = Inr (sort_key (\<lambda>y. case f y of Inl e \<Rightarrow> 0 | Inr n \<Rightarrow> n) xs)"
proof (cases "py_sorted f xs")
  case (Inl e)
  then have "keys_of f xs = Inl e" by (auto simp: py_sorted_def split: sum.splits)
  from keys_of_Inl [OF this] assms show ?thesis by auto
next
  case (Inr ys)
  then show ?thesis using py_sorted_Inr [OF Inr] by simp
qed

lemma py_sorted_Inl:
  "py_sorted f xs = Inl e \<Longrightarrow> \<exists>x \<in> set xs. f x = Inl e"
  by (auto simp: py_sorted_def dest: keys_of_Inl split: sum.splits)

lemma foldl_dict_set_keys_distinct:
  "distinct (map fst d) \<Longrightarrow> distinct (map fst (foldl (\<lambda>d (k, v). dict_set d k v) d xs))"
  by (induction xs arbitrary: d) (auto simp: dict_set_keys)

lemma py_dict_distinct: "distinct (map fst (py_dict xs))"
  by (simp add: py_dict_def foldl_dict_set_keys_distinct)

lemma foldl_dict_set_set:
  "set (foldl (\<lambda>d (k, v). dict_set d k v) d xs) \<subseteq> set d \<union> set xs"
proof (induction xs arbitrary: d)
  case Nil
  then show ?case by simp
next
  case (Cons x xs)
  obtain k v where x: "x = (k, v)" by (cases x)
  show ?case using Cons [of "dict_set d k v"] set_dict_set [of d k v] by (auto simp: x)
qed

lemma dict_set_keys_set: "set (map fst (dict_set d k v)) = insert k (set (map fst d))"
  by (auto simp: dict_set_keys)

lemma foldl_dict_set_keys:
  "set (map fst (foldl (\<lambda>d (k, v). dict_set d k v) d xs)) = set (map fst d) \<union> set (map fst xs)"
proof (induction xs arbitrary: d)
  case Nil
  then show ?case by simp
next
  case (Cons x xs)
  obtain k v where x: "x = (k, v)" by (cases x)
  show ?case using Cons [of "dict_set d k v"] dict_set_keys_set [of d k v] by (simp add: x)
qed

lemma py_dict_keys: "set (map fst (py_dict xs)) = set (map fst xs)"
  using foldl_dict_set_keys [of "[]" xs] by (simp add: py_dict_def)

lemma py_dict_subset: "set (py_dict xs) \<subseteq> set xs"
  using foldl_dict_set_set [of "[]" xs] by (simp add: py_dict_def)

lemma foldl_dict_set_fresh:
  "distinct (map fst (d @ xs)) \<Longrightarrow> foldl (\<lambda>d (k, v). dict_set d k v) d xs = d @ xs"
proof (induction xs arbitrary: d)
  case Nil
  then show ?case by simp
next
  case (Cons x xs)
  obtain k v where x: "x = (k, v)" by (cases x)
  have "dict_set d k v = d @ [(k, v)]" using Cons.prems by (intro dict_set_new) (auto simp: x)
  then show ?case using Cons.IH [of "d @ [(k, v)]"] Cons.prems by (simp add: x)
qed

lemma py_dict_id: "distinct (map fst xs) \<Longrightarrow> py_dict xs = xs"
  using foldl_dict_set_fresh [of "[]" xs] by (simp add: py_dict_def)

lemma sort_key_keys_distinct:
  "distinct (map fst xs) \<Longrightarrow> distinct (map fst (sort_key g xs))"
proof -
  assume d: "distinct (map fst xs)"
  have "mset (map fst (sort_key g xs)) = mset (map fst xs)" by simp
  then show ?thesis using d by (metis mset_eq_imp_distinct_iff)
qed

lemma event_num_of_eq: "(\<lambda>y. case py_int (fst y) of Inl e \<Rightarrow> 0 | Inr n \<Rightarrow> n) = event_num_of"
  by (simp add: event_num_of_def fun_eq_iff)

text \<open>The parser on a label file that exists.\<close>

lemma parser_existing:
  assumes loc: "locate_labelfile E exp run root = Inr path"
    and fl: "label_file E path = Some (Inr members)"
  shows "list_all int_key members \<Longrightarrow>
         ImgLabelFileParser_init E exp run root =
           (Inr \<lparr>parser_exp = exp, parser_run = run, drc_root = root, path_labelfile = path,
                 imglabel_dict = sort_key event_num_of (py_dict members)\<rparr>, [])"
    and "\<not> list_all int_key members \<Longrightarrow> \<exists>e. ImgLabelFileParser_init E exp run root = (Inl e, [])"
proof -
  let ?f = "\<lambda>x :: string \<times> int. py_int (fst x)"
  {
    assume ok: "list_all int_key members"
    have "\<forall>x \<in> set (py_dict members). \<exists>n. ?f x = Inr n"
      using ok py_dict_subset [of members]
      by (auto simp: list_all_iff int_key_iff)
    then have s: "py_sorted ?f (py_dict members) = Inr (sort_key event_num_of (py_dict members))"
      using py_sorted_total [of "py_dict members" ?f] by (simp add: event_num_of_eq)
    have "py_dict (sort_key event_num_of (py_dict members)) = sort_key event_num_of (py_dict members)"
      by (intro py_dict_id sort_key_keys_distinct py_dict_distinct)
    then show "ImgLabelFileParser_init E exp run root =
           (Inr \<lparr>parser_exp = exp, parser_run = run, drc_root = root, path_labelfile = path,
                 imglabel_dict = sort_key event_num_of (py_dict members)\<rparr>, [])"
      using loc fl s by (simp add: ImgLabelFileParser_init_def)
  }
  {
    assume bad: "\<not> list_all int_key members"
    show "\<exists>e. ImgLabelFileParser_init E exp run root = (Inl e, [])"
    proof (cases "py_sorted ?f (py_dict members)")
      case (Inl e)
      then show ?thesis using loc fl by (simp add: ImgLabelFileParser_init_def)
    next
      case (Inr ys)
      then obtain ns where "keys_of ?f (py_dict members) = Inr ns"
        by (auto simp: py_sorted_def split: sum.splits)
      then have m: "map ?f (py_dict members) = map Inr ns" by (simp add: keys_of_Inr)
      from bad obtain x where x: "x \<in> set members" "\<not> int_key x" by (auto simp: list_all_iff)
      have "fst x \<in> set (map fst members)" using x(1) by simp
      then have "fst x \<in> set (map fst (py_dict members))" by (simp only: py_dict_keys)
      then obtain y where y: "y \<in> set (py_dict members)" "fst y = fst x" by auto
      have "set (map ?f (py_dict members)) = set (map Inr ns)" using m by simp
      then have im: "?f ` set (py_dict members) = Inr ` set ns" by simp
      have "?f y \<in> ?f ` set (py_dict members)" using y(1) by (rule imageI)
      then obtain n where "?f y = Inr n" unfolding im by auto
      then have "int_key x" using y(2) by (auto simp: int_key_iff)
      then show ?thesis using x(2) by simp
    qed
  }
qed





lemma parser_missing:
  "locate_labelfile E exp run root = Inr path \<Longrightarrow> label_file E path = None \<Longrightarrow>
   ImgLabelFileParser_init E exp run root =
     (Inr \<lparr>parser_exp = exp, parser_run = run, drc_root = root, path_labelfile = path,
           imglabel_dict = []\<rparr>, [Print (missing_message path)])"
  by (simp add: ImgLabelFileParser_init_def)

lemma digits_value_chars:
  "digits_value acc cs = Some n \<Longrightarrow> \<forall>c \<in> set cs. is_digit c \<or> c = CHR ''_''"
  by (induction acc cs rule: digits_value.induct) (auto split: if_splits list.splits)

lemma unsigned_value_chars:
  "unsigned_value body = Some n \<Longrightarrow> \<forall>c \<in> set body. is_digit c \<or> c = CHR ''_''"
  by (auto simp: unsigned_value_def dest: digits_value_chars split: list.splits if_splits)

lemma set_py_strip: "set s \<subseteq> {c. is_space c} \<union> set (py_strip s)"
proof -
  have a: "set xs \<subseteq> {c. is_space c} \<union> set (dropWhile is_space xs)" for xs
    by (induction xs) auto
  have "set s \<subseteq> {c. is_space c} \<union> set (rev (dropWhile is_space s))" using a [of s] by simp
  also have "\<dots> \<subseteq> {c. is_space c} \<union> set (dropWhile is_space (rev (dropWhile is_space s)))"
    using a [of "rev (dropWhile is_space s)"] by auto
  finally show ?thesis by (simp add: py_strip_def)
qed

lemma py_int_chars:
  assumes "py_int s = Inr n"
  shows "\<forall>c \<in> set s. is_space c \<or> is_digit c \<or> c = CHR ''_'' \<or> c = CHR ''+'' \<or> c = CHR ''-''"
proof -
  have "\<forall>c \<in> set (py_strip s). is_digit c \<or> c = CHR ''_'' \<or> c = CHR ''+'' \<or> c = CHR ''-''"
    using assms
    by (auto simp: py_int_def dest!: unsigned_value_chars split: list.splits if_splits option.splits)
  then show ?thesis using set_py_strip [of s] by auto
qed

lemma py_int_no_dot: "py_int s = Inr n \<Longrightarrow> CHR ''.'' \<notin> set s"
  using py_int_chars [of s n] by (auto simp: is_space_def is_digit_def)

lemma py_split_nonempty: "py_split c s \<noteq> []"
  by (induction s) (auto split: list.splits)

lemma py_split_append: "py_split c (a @ c # b) = py_split c a @ py_split c b"
  by (induction a) (auto split: list.splits simp: py_split_nonempty)

lemma py_split_none: "c \<notin> set s \<Longrightarrow> py_split c s = [s]"
  by (induction s) auto

lemma py_split_length: "length (py_split c s) = Suc (count_list s c)"
  by (induction s) (auto split: list.splits simp: py_split_nonempty)

lemma unpack2_Inr: "unpack2 xs = Inr (a, b) \<longleftrightarrow> xs = [a, b]"
  by (cases xs rule: unpack2.cases) auto

lemma unpack2_Inl: "unpack2 xs = Inl e \<Longrightarrow> length xs \<noteq> 2"
  by (cases xs rule: unpack2.cases) auto

text \<open>The split of a basename whose run holds no dot.\<close>

lemma split_basename:
  assumes "CHR ''.'' \<notin> set run"
  shows "unpack2 (py_split CHR ''.'' (basename_of exp run)) =
           (if CHR ''.'' \<in> set exp then Inl too_many_values
            else Inr (exp, run))"
proof (cases "CHR ''.'' \<in> set exp")
  case False
  then show ?thesis using assms
    by (simp add: basename_of_def py_split_append py_split_none)
next
  case True
  then have "count_list exp CHR ''.'' > 0" by (induction exp) auto
  then have "length (py_split CHR ''.'' (basename_of exp run)) > 2"
    using assms by (simp add: basename_of_def py_split_append py_split_length py_split_none)
  then show ?thesis using True
    by (cases "py_split CHR ''.'' (basename_of exp run)" rule: unpack2.cases) auto
qed

lemma append_sep_inj:
  "c \<notin> set r1 \<Longrightarrow> c \<notin> set r2 \<Longrightarrow> e1 @ c # r1 = e2 @ c # r2 \<Longrightarrow> e1 = e2 \<and> r1 = r2"
proof (induction e1 arbitrary: e2)
  case Nil
  then show ?case by (cases e2) auto
next
  case (Cons x e1)
  show ?case
  proof (cases e2)
    case Nil
    then show ?thesis using Cons.prems by auto
  next
    case (Cons y e2')
    then show ?thesis using Cons.IH [of e2'] Cons.prems by auto
  qed
qed

lemma basename_inj:
  "CHR ''.'' \<notin> set r1 \<Longrightarrow> CHR ''.'' \<notin> set r2 \<Longrightarrow> basename_of e1 r1 = basename_of e2 r2 \<Longrightarrow>
   e1 = e2 \<and> r1 = r2"
  using append_sep_inj [of "CHR ''.''" r1 r2 e1 e2] by (simp add: basename_of_def)

section \<open>The construction of the catalog\<close>

lemma unpack5_length:
  "length line = 5 \<Longrightarrow> unpack5 line = Inr (col_exp line, col_run line, col_mode line, col_detector line, col_root line)"
  by (cases line rule: unpack5.cases) (auto simp: col_exp_def col_run_def col_mode_def col_detector_def col_root_def)

lemma unpack5_Inl: "length line \<noteq> 5 \<Longrightarrow> \<exists>e. unpack5 line = Inl e"
  by (cases line rule: unpack5.cases) auto

lemma PsanaImg_init_line:
  "PsanaImg_init E (col_exp line) (col_run line) (col_mode line) (col_detector line) =
     (case psana_times E (line_dsid line) of
        Inl e \<Rightarrow> (Inl e, [DataSourceOpen (line_dsid line)])
      | Inr ts \<Rightarrow> (Inr (line_reader E line), [DataSourceOpen (line_dsid line)]))"
  by (simp add: PsanaImg_init_def line_dsid_def line_reader_def Let_def split: sum.splits)

lemma parser_Inl_trace: "ImgLabelFileParser_init E exp run root = (Inl e, t) \<Longrightarrow> t = []"
  by (auto simp: ImgLabelFileParser_init_def Let_def split: sum.splits option.splits)

lemma parser_line:
  assumes "line_ok E line"
  shows "\<exists>p. ImgLabelFileParser_init E (col_exp line) (col_run line) (col_root line) = (Inr p, line_prints E line) \<and>
             imglabel_dict p = sort_key event_num_of (run_label_pairs E line)"
proof -
  from assms obtain path where loc: "locate_labelfile E (col_exp line) (col_run line) (col_root line) = Inr path"
    by (auto simp: line_ok_def split: sum.splits)
  show ?thesis
  proof (cases "label_file E path")
    case None
    then show ?thesis using loc parser_missing [OF loc None]
      by (simp add: line_prints_def run_label_pairs_def)
  next
    case (Some r)
    then obtain members where m: "r = Inr members" and ok: "list_all int_key members"
      using assms loc by (auto simp: line_ok_def split: sum.splits)
    show ?thesis using loc Some m parser_existing(1) [OF loc _ ok]
      by (simp add: line_prints_def run_label_pairs_def)
  qed
qed

lemma parser_line_fail:
  assumes "length line = 5" "\<not> (case locate_labelfile E (col_exp line) (col_run line) (col_root line) of
         Inl e \<Rightarrow> False
       | Inr path \<Rightarrow>
           (case label_file E path of
              None \<Rightarrow> True
            | Some (Inl e) \<Rightarrow> False
            | Some (Inr members) \<Rightarrow> list_all int_key members))"
  shows "\<exists>e. ImgLabelFileParser_init E (col_exp line) (col_run line) (col_root line) = (Inl e, [])"
proof (cases "locate_labelfile E (col_exp line) (col_run line) (col_root line)")
  case (Inl e)
  then show ?thesis by (simp add: ImgLabelFileParser_init_def)
next
  case (Inr path)
  show ?thesis
  proof (cases "label_file E path")
    case None
    then show ?thesis using assms Inr by simp
  next
    case (Some r)
    show ?thesis
    proof (cases r)
      case (Inl e)
      then show ?thesis using Inr Some by (simp add: ImgLabelFileParser_init_def)
    next
      case (Inr members)
      then have "\<not> list_all int_key members" using assms \<open>locate_labelfile E (col_exp line) (col_run line) (col_root line) = Inr path\<close> Some
        by simp
      then show ?thesis
        using parser_existing(2) [OF \<open>locate_labelfile E (col_exp line) (col_run line) (col_root line) = Inr path\<close>] Some Inr
        by simp
    qed
  qed
qed

lemma read_step_ok:
  assumes "line_ok E line"
  shows "read_datasets E (line # lines) rd ds =
     (case read_datasets E lines (dict_set rd (line_basename line) (line_reader E line))
             (dict_set ds (line_basename line) (sort_key event_num_of (run_label_pairs E line))) of
        (r, t3) \<Rightarrow> (r, DataSourceOpen (line_dsid line) # line_prints E line @ t3))"
proof -
  have len: "length line = 5" using assms by (simp add: line_ok_def)
  obtain ts where ts: "psana_times E (line_dsid line) = Inr ts"
    using assms by (auto simp: line_ok_def split: sum.splits)
  obtain p where p: "ImgLabelFileParser_init E (col_exp line) (col_run line) (col_root line) = (Inr p, line_prints E line)"
    "imglabel_dict p = sort_key event_num_of (run_label_pairs E line)"
    using parser_line [OF assms] by auto
  show ?thesis
    by (simp add: unpack5_length [OF len] PsanaImg_init_line ts p line_basename_def
        split: prod.splits)
qed

lemma read_step_fail:
  assumes "\<not> line_ok E line"
  shows "\<exists>e t. read_datasets E (line # lines) rd ds = (Inl e, t)"
proof (cases "length line = 5")
  case False
  then obtain e where "unpack5 line = Inl e" using unpack5_Inl by blast
  then show ?thesis by simp
next
  case len: True
  show ?thesis
  proof (cases "psana_times E (line_dsid line)")
    case (Inl e)
    then show ?thesis by (simp add: unpack5_length [OF len] PsanaImg_init_line)
  next
    case (Inr ts)
    then obtain e where "ImgLabelFileParser_init E (col_exp line) (col_run line) (col_root line) = (Inl e, [])"
      using parser_line_fail [OF len] assms len by (auto simp: line_ok_def)
    then show ?thesis using Inr by (simp add: unpack5_length [OF len] PsanaImg_init_line)
  qed
qed

lemma read_ok:
  "read_datasets E lines rd ds = (Inr x, t) \<Longrightarrow> list_all (line_ok E) lines"
proof (induction lines arbitrary: rd ds x t)
  case Nil
  then show ?case by simp
next
  case (Cons line lines)
  have ok: "line_ok E line"
    using read_step_fail [of E line lines rd ds] Cons.prems by auto
  let ?rd = "dict_set rd (line_basename line) (line_reader E line)"
  let ?ds = "dict_set ds (line_basename line) (sort_key event_num_of (run_label_pairs E line))"
  obtain r t3 where r: "read_datasets E lines ?rd ?ds = (r, t3)"
    by (cases "read_datasets E lines ?rd ?ds")
  have "r = Inr x" using Cons.prems read_step_ok [OF ok, of lines rd ds] r by simp
  then show ?case using Cons.IH [of ?rd ?ds x t3] r ok by simp
qed

lemma read_trace:
  "list_all (line_ok E) lines \<Longrightarrow>
   snd (read_datasets E lines rd ds) =
     concat (map (\<lambda>l. DataSourceOpen (line_dsid l) # line_prints E l) lines)"
proof (induction lines arbitrary: rd ds)
  case Nil
  then show ?case by simp
next
  case (Cons line lines)
  then have ok: "line_ok E line" and rest: "list_all (line_ok E) lines" by simp_all
  show ?case
    using Cons.IH [OF rest]
    by (simp add: read_step_ok [OF ok] case_prod_beta del: read_datasets.simps)
qed

lemma read_result:
  "list_all (line_ok E) lines \<Longrightarrow> distinct (map line_basename lines) \<Longrightarrow>
   set (map fst rd) \<inter> set (map line_basename lines) = {} \<Longrightarrow>
   set (map fst ds) \<inter> set (map line_basename lines) = {} \<Longrightarrow>
   fst (read_datasets E lines rd ds) =
     Inr (rd @ map (\<lambda>l. (line_basename l, line_reader E l)) lines,
          ds @ map (\<lambda>l. (line_basename l, sort_key event_num_of (run_label_pairs E l))) lines)"
proof (induction lines arbitrary: rd ds)
  case Nil
  then show ?case by simp
next
  case (Cons line lines)
  then have ok: "line_ok E line" and rest: "list_all (line_ok E) lines" by simp_all
  let ?b = "line_basename line"
  have nb: "?b \<notin> set (map fst rd)" "?b \<notin> set (map fst ds)" using Cons.prems(3,4) by auto
  have rd: "dict_set rd ?b (line_reader E line) = rd @ [(?b, line_reader E line)]"
    using nb(1) by (rule dict_set_new)
  have ds: "dict_set ds ?b (sort_key event_num_of (run_label_pairs E line)) =
            ds @ [(?b, sort_key event_num_of (run_label_pairs E line))]"
    using nb(2) by (rule dict_set_new)
  have d: "distinct (map line_basename lines)" "?b \<notin> set (map line_basename lines)"
    using Cons.prems(2) by simp_all
  have i1: "set (map fst (rd @ [(?b, line_reader E line)])) \<inter> set (map line_basename lines) = {}"
    using Cons.prems(3) d(2) by auto
  have i2: "set (map fst (ds @ [(?b, sort_key event_num_of (run_label_pairs E line))])) \<inter>
            set (map line_basename lines) = {}"
    using Cons.prems(4) d(2) by auto
  show ?case
    using Cons.IH [OF rest d(1) i1 i2]
    by (simp add: read_step_ok [OF ok] rd ds case_prod_beta del: read_datasets.simps)
qed

lemma line_ok_run_no_dot: "line_ok E line \<Longrightarrow> CHR ''.'' \<notin> set (col_run line)"
  by (auto simp: line_ok_def locate_labelfile_def dest: py_int_no_dot split: sum.splits)

lemma line_ok_dict_keys:
  assumes "line_ok E line"
  shows "list_all int_key (sort_key event_num_of (run_label_pairs E line))"
proof -
  have "list_all int_key (run_label_pairs E line)"
    using assms py_dict_subset
    by (fastforce simp: line_ok_def run_label_pairs_def list_all_iff split: sum.splits option.splits)
  then show ?thesis by (simp add: list_all_iff)
qed

lemma enumerate_content_ok:
  "list_all int_key content \<Longrightarrow>
   enumerate_content exp run content acc =
     Inr (acc @ map (\<lambda>x. (exp, run, event_num_of x, snd x)) content)"
proof (induction content arbitrary: acc)
  case Nil
  then show ?case by simp
next
  case (Cons x content)
  obtain k v where x: "x = (k, v)" by (cases x)
  from Cons.prems obtain n where n: "py_int k = Inr n" by (auto simp: x int_key_iff)
  then have "event_num_of (k, v) = n" by (simp add: event_num_of_def)
  then show ?case using Cons n by (simp add: x)
qed

lemma enumerate_lines:
  "list_all (line_ok E) lines \<Longrightarrow>
   enumerate_datasets
     (map (\<lambda>l. (line_basename l, sort_key event_num_of (run_label_pairs E l))) lines) acc =
     (if list_all no_dot lines then Inr (acc @ concat (map (run_samples E) lines))
      else Inl too_many_values)"
proof (induction lines arbitrary: acc)
  case Nil
  then show ?case by simp
next
  case (Cons line lines)
  then have ok: "line_ok E line" and rest: "list_all (line_ok E) lines" by simp_all
  have sp: "unpack2 (py_split CHR ''.'' (line_basename line)) =
     (if no_dot line then Inr (col_exp line, col_run line) else Inl too_many_values)"
    using split_basename [OF line_ok_run_no_dot [OF ok], of "col_exp line"]
    by (simp add: line_basename_def no_dot_def too_many_values_def)
  have ec: "enumerate_content (col_exp line) (col_run line)
              (sort_key event_num_of (run_label_pairs E line)) acc =
            Inr (acc @ run_samples E line)"
    using enumerate_content_ok [OF line_ok_dict_keys [OF ok]] by (simp add: run_samples_def)
  show ?case using Cons.IH [OF rest] by (simp add: sp ec)
qed

lemma take2_line: "length line = 5 \<Longrightarrow> take 2 line = [col_exp line, col_run line]"
  by (cases line rule: unpack5.cases) (auto simp: col_exp_def col_run_def)

lemma distinct_basenames:
  assumes ok: "list_all (line_ok E) lines" and d: "distinct (map (take 2) lines)"
  shows "distinct (map line_basename lines)"
proof -
  from d have dl: "distinct lines" and inj: "inj_on (take 2) (set lines)"
    by (simp_all add: distinct_map)
  have "inj_on line_basename (set lines)"
  proof (rule inj_onI)
    fix l1 l2 assume l: "l1 \<in> set lines" "l2 \<in> set lines" and b: "line_basename l1 = line_basename l2"
    have ok1: "line_ok E l1" and ok2: "line_ok E l2" using ok l by (auto simp: list_all_iff)
    have "col_exp l1 = col_exp l2 \<and> col_run l1 = col_run l2"
      using basename_inj [OF line_ok_run_no_dot [OF ok1] line_ok_run_no_dot [OF ok2]] b
      by (simp add: line_basename_def)
    moreover have "length l1 = 5" "length l2 = 5" using ok1 ok2 by (simp_all add: line_ok_def)
    ultimately have "take 2 l1 = take 2 l2" by (simp add: take2_line)
    then show "l1 = l2" using inj l by (auto dest: inj_onD)
  qed
  then show ?thesis using dl by (simp add: distinct_map)
qed

lemma SPIImg_init_ok:
  assumes "SPIImg_init E (header # lines) = (Inr cat, t)"
  shows "list_all (line_ok E) lines"
    and "t = concat (map (\<lambda>l. DataSourceOpen (line_dsid l) # line_prints E l) lines)"
proof -
  obtain r t' where r: "read_datasets E lines [] [] = (r, t')"
    by (cases "read_datasets E lines [] []")
  from assms r obtain x where x: "r = Inr x" and t: "t = t'"
    by (cases r) (auto simp: SPIImg_init_def split: sum.splits prod.splits)
  show ok: "list_all (line_ok E) lines" using read_ok [of E lines "[]" "[]" x t'] r x by simp
  show "t = concat (map (\<lambda>l. DataSourceOpen (line_dsid l) # line_prints E l) lines)"
    using read_trace [OF ok, of "[]" "[]"] r t by simp
qed

lemma SPIImg_init_result:
  assumes ok: "list_all (line_ok E) lines" and d: "distinct (map (take 2) lines)"
  shows "SPIImg_init E (header # lines) =
     (if list_all no_dot lines then
        Inr \<lparr>dataset_dict = map (\<lambda>l. (line_basename l, sort_key event_num_of (run_label_pairs E l))) lines,
             imglabel_list = concat (map (run_samples E) lines),
             psana_imgreader_dict = map (\<lambda>l. (line_basename l, line_reader E l)) lines\<rparr>
      else Inl too_many_values,
      concat (map (\<lambda>l. DataSourceOpen (line_dsid l) # line_prints E l) lines))"
proof -
  have f: "fst (read_datasets E lines [] []) =
     Inr (map (\<lambda>l. (line_basename l, line_reader E l)) lines,
          map (\<lambda>l. (line_basename l, sort_key event_num_of (run_label_pairs E l))) lines)"
    using read_result [OF ok distinct_basenames [OF ok d], of "[]" "[]"] by simp
  have s: "snd (read_datasets E lines [] []) =
     concat (map (\<lambda>l. DataSourceOpen (line_dsid l) # line_prints E l) lines)"
    by (rule read_trace [OF ok])
  have r: "read_datasets E lines [] [] =
     (Inr (map (\<lambda>l. (line_basename l, line_reader E l)) lines,
          map (\<lambda>l. (line_basename l, sort_key event_num_of (run_label_pairs E l))) lines),
      concat (map (\<lambda>l. DataSourceOpen (line_dsid l) # line_prints E l) lines))"
    using f s by (cases "read_datasets E lines [] []") simp
  show ?thesis
    using enumerate_lines [OF ok, of "[]"] by (simp add: SPIImg_init_def r)
qed

lemma run_samples_length: "length (run_samples E l) = length (run_label_pairs E l)"
  by (simp add: run_samples_def)

lemma run_samples_sorted: "sorted (map sample_event_num (run_samples E l))"
proof -
  have "map sample_event_num (run_samples E l) =
        map event_num_of (sort_key event_num_of (run_label_pairs E l))"
    by (simp add: run_samples_def sample_event_num_def comp_def)
  then show ?thesis by simp
qed


lemma ex_catalog_init: "SPIImg_init ex_env (ex_header # ex_lines) = (Inr ex_catalog, ex_opens)"
  by code_simp

text \<open>
  C1, as stated, fails for a manifest that lists a run twice: the dictionary of datasets
  is keyed by experiment and run, so the second line replaces what the first one
  stored. The two label files below define four pairs together; the catalog has one
  sample, that of the second file.
\<close>

theorem catalog_repeated_run_replaced:
  "SPIImg_init ex_env_roots (ex_header # ex_lines_roots) =
     (Inr ex_catalog_roots, [DataSourceOpen ''exp=A:run=1:idx'', DataSourceOpen ''exp=A:run=1:idx'']) \<and>
   map (run_label_pairs ex_env_roots) ex_lines_roots =
     [[(''0'', 1), (''2'', 1), (''5'', 0)], [(''1'', 0)]] \<and>
   sum_list (map (\<lambda>l. length (run_label_pairs ex_env_roots l)) ex_lines_roots) = 4 \<and>
   SPIImg_len ex_catalog_roots = 1 \<and>
   imglabel_list ex_catalog_roots = [(''A'', ''1'', 1, 0)]"
  by code_simp

text \<open>
  C1 (amended): for a manifest whose lines name pairwise different (experiment, run)
  pairs and the catalog constructed from it, the flat sample list is the concatenation,
  in manifest order, of the runs' samples in ascending numeric order of the event
  number; its length is the number N of (event, label) pairs the label files define;
  the indices of the list are exactly 0, \<dots>, N - 1, and each of them reads the sample
  at its position.
\<close>

theorem catalog_samples_in_manifest_order:
  assumes init: "SPIImg_init E (header # lines) = (Inr cat, t)"
    and d: "distinct (map (take 2) lines)"
  shows "imglabel_list cat = concat (map (run_samples E) lines) \<and>
         (\<forall>l \<in> set lines. sorted (map sample_event_num (run_samples E l))) \<and>
         SPIImg_len cat = sum_list (map (\<lambda>l. length (run_label_pairs E l)) lines) \<and>
         map fst (enumerate 0 (imglabel_list cat)) =
           [0 ..< sum_list (map (\<lambda>l. length (run_label_pairs E l)) lines)] \<and>
         (\<forall>i < SPIImg_len cat.
            py_getitem (imglabel_list cat) (int i) = Inr (concat (map (run_samples E) lines) ! i))"
proof -
  have ok: "list_all (line_ok E) lines" using SPIImg_init_ok(1) [OF init] .
  have il: "imglabel_list cat = concat (map (run_samples E) lines)"
    using SPIImg_init_result [OF ok d, of header] init by (auto split: if_splits)
  have len: "length (concat (map (run_samples E) lines)) =
             sum_list (map (\<lambda>l. length (run_label_pairs E l)) lines)"
    by (simp add: length_concat comp_def run_samples_length)
  show ?thesis
    using len by (simp add: il SPIImg_len_def py_getitem_nat run_samples_sorted)
qed

theorem catalog_samples_witness:
  "distinct (map (take 2) ex_lines) \<and>
   SPIImg_init ex_env (ex_header # ex_lines) = (Inr ex_catalog, ex_opens) \<and>
   concat (map (run_samples ex_env) ex_lines) =
     [(''A'', ''1'', 0, 1), (''A'', ''1'', 2, 1), (''A'', ''1'', 5, 0), (''B'', ''1'', 1, 0)] \<and>
   imglabel_list ex_catalog =
     [(''A'', ''1'', 0, 1), (''A'', ''1'', 2, 1), (''A'', ''1'', 5, 0), (''B'', ''1'', 1, 0)] \<and>
   SPIImg_len ex_catalog = 4 \<and>
   sum_list (map (\<lambda>l. length (run_label_pairs ex_env l)) ex_lines) = 4 \<and>
   map fst (enumerate 0 (imglabel_list ex_catalog)) = [0, 1, 2, 3]"
proof -
  have d: "distinct (map (take 2) ex_lines)" by code_simp
  have il: "imglabel_list ex_catalog =
     [(''A'', ''1'', 0, 1), (''A'', ''1'', 2, 1), (''A'', ''1'', 5, 0), (''B'', ''1'', 1, 0)]"
    by (simp add: ex_catalog_def)
  have e: "map fst (enumerate 0 (imglabel_list ex_catalog)) = [0, 1, 2, 3]"
    unfolding il by code_simp
  have n: "SPIImg_len ex_catalog = 4" by (simp add: SPIImg_len_def il)
  show ?thesis
    using catalog_samples_in_manifest_order [OF ex_catalog_init d] d ex_catalog_init il e n
    by simp
qed
















section \<open>The lookup table of labels\<close>

lemma dict_set_values_mset:
  "dict_getitem d k = Inr ids \<Longrightarrow>
   mset (concat (map snd (dict_set d k (ids @ [i])))) = mset (concat (map snd d)) + {#i#}"
  by (induction d) (auto split: if_splits)

lemma dict_set_new_values_mset:
  "k \<notin> set (map fst d) \<Longrightarrow>
   mset (concat (map snd (dict_set d k [i]))) = mset (concat (map snd d)) + {#i#}"
  by (simp add: dict_set_new)

lemma dict_contains_getitem:
  "dict_contains d k \<Longrightarrow> \<exists>v. dict_getitem d k = Inr v"
  using dict_getitem_KeyError [of d k] by (cases "dict_getitem d k") (auto simp: dict_contains_def)

lemma upt_shift: "[k ..< k + Suc n] = k # [Suc k ..< Suc k + n]"
  by (simp add: upt_conv_Cons del: upt_Suc)

lemma build_mset:
  "mset (concat (map snd (build_label_seqi_dict d k xs))) =
   mset (concat (map snd d)) + mset [k ..< k + length xs]"
proof (induction d k xs rule: build_label_seqi_dict.induct)
  case (1 d seqi)
  then show ?case by simp
next
  case (2 d seqi exp run event_num label rest)
  have len: "[seqi ..< seqi + length ((exp, run, event_num, label) # rest)] =
             seqi # [Suc seqi ..< Suc seqi + length rest]"
    using upt_shift [of seqi "length rest"] by simp
  show ?case
  proof (cases "dict_contains d label")
    case False
    then have "mset (concat (map snd (dict_set d label [seqi]))) = mset (concat (map snd d)) + {#seqi#}"
      by (simp add: dict_contains_def dict_set_new_values_mset)
    then show ?thesis using False 2(1) unfolding len
      by (simp del: dict_set.simps upt_Suc)
  next
    case True
    then obtain ids where ids: "dict_getitem d label = Inr ids"
      using dict_contains_getitem [of d label] by auto
    have "mset (concat (map snd (dict_set d label (ids @ [seqi])))) = mset (concat (map snd d)) + {#seqi#}"
      using ids by (rule dict_set_values_mset)
    then show ?thesis using True ids 2(3) [OF _ ids] unfolding len
      by (simp del: dict_set.simps upt_Suc)
  qed
qed

lemma build_distinct:
  "distinct (map fst d) \<Longrightarrow> distinct (map fst (build_label_seqi_dict d k xs))"
proof (induction d k xs rule: build_label_seqi_dict.induct)
  case (1 d seqi)
  then show ?case by simp
next
  case (2 d seqi exp run event_num label rest)
  show ?case
  proof (cases "dict_contains d label")
    case False
    then show ?thesis using 2(1) 2(4) by (simp add: dict_contains_def dict_set_keys del: dict_set.simps)
  next
    case True
    then obtain ids where ids: "dict_getitem d label = Inr ids"
      using dict_contains_getitem [of d label] by auto
    show ?thesis using True ids 2(3) [OF _ ids] 2(4)
      by (simp add: dict_contains_def dict_set_keys del: dict_set.simps)
  qed
qed



lemma buckets_ok_set:
  "buckets_ok lab n d \<Longrightarrow> ids \<noteq> [] \<Longrightarrow> \<forall>i \<in> set ids. i < n \<and> lab i = l \<Longrightarrow> buckets_ok lab n (dict_set d l ids)"
  using set_dict_set [of d l ids] unfolding buckets_ok_def by blast

lemma build_ok:
  "buckets_ok (\<lambda>i. sample_label ((pre @ xs) ! i)) (length pre + length xs) d \<Longrightarrow> k = length pre \<Longrightarrow>
   buckets_ok (\<lambda>i. sample_label ((pre @ xs) ! i)) (length pre + length xs) (build_label_seqi_dict d k xs)"
proof (induction d k xs arbitrary: pre rule: build_label_seqi_dict.induct)
  case (1 d seqi)
  then show ?case by simp
next
  case (2 d seqi exp run event_num label rest)
  let ?x = "(exp, run, event_num, label)"
  let ?lab = "\<lambda>i. sample_label ((pre @ ?x # rest) ! i)"
  let ?n = "length pre + length (?x # rest)"
  have eq: "pre @ ?x # rest = (pre @ [?x]) @ rest" by simp
  have here: "seqi < ?n \<and> ?lab seqi = label" using 2(5) by (simp add: sample_label_def)
  show ?case
  proof (cases "dict_contains d label")
    case False
    have "buckets_ok ?lab ?n (dict_set d label [seqi])"
      using buckets_ok_set [OF 2(4), of "[seqi]" label] here by simp
    then show ?thesis using False 2(1) [of "pre @ [?x]"] 2(5) by (simp del: dict_set.simps)
  next
    case True
    then obtain ids where ids: "dict_getitem d label = Inr ids"
      using dict_contains_getitem [of d label] by auto
    have "(label, ids) \<in> set d" using ids by (rule dict_getitem_mem)
    then have "\<forall>i \<in> set ids. i < ?n \<and> ?lab i = label" using 2(4) unfolding buckets_ok_def by blast
    then have "buckets_ok ?lab ?n (dict_set d label (ids @ [seqi]))"
      using buckets_ok_set [OF 2(4), of "ids @ [seqi]" label] here by auto
    then show ?thesis using True ids 2(3) [OF _ ids, of "pre @ [?x]"] 2(5) by (simp del: dict_set.simps)
  qed
qed

text \<open>The lookup table built from a list of samples.\<close>

lemma build_table:
  fixes il :: "sample list"
  defines "d \<equiv> build_label_seqi_dict [] 0 il"
  shows "sort (concat (map snd d)) = [0 ..< length il]"
    and "distinct (map fst d)"
    and "buckets_ok (\<lambda>i. sample_label (il ! i)) (length il) d"
    and "\<forall>i < length il. \<exists>ids. dict_getitem d (sample_label (il ! i)) = Inr ids \<and> i \<in> set ids"
proof -
  have m: "mset (concat (map snd d)) = mset [0 ..< length il]"
    unfolding d_def using build_mset [of "[]" 0 il] by simp
  show s: "sort (concat (map snd d)) = [0 ..< length il]"
    by (rule properties_for_sort [OF m [symmetric]]) simp
  show dist: "distinct (map fst d)"
    unfolding d_def by (rule build_distinct) simp
  show ok: "buckets_ok (\<lambda>i. sample_label (il ! i)) (length il) d"
    unfolding d_def using build_ok [of "[]" il "[]" 0] by (simp add: buckets_ok_def)
  show "\<forall>i < length il. \<exists>ids. dict_getitem d (sample_label (il ! i)) = Inr ids \<and> i \<in> set ids"
  proof (intro allI impI)
    fix i assume "i < length il"
    then have "i \<in># mset (concat (map snd d))" using m by simp
    then have "i \<in> set (concat (map snd d))" by simp
    then obtain l ids where mem: "(l, ids) \<in> set d" and i: "i \<in> set ids" by auto
    have "sample_label (il ! i) = l" using ok mem i unfolding buckets_ok_def by blast
    then show "\<exists>ids. dict_getitem d (sample_label (il ! i)) = Inr ids \<and> i \<in> set ids"
      using dict_getitem_distinct [OF dist mem] i by auto
  qed
qed

lemma SPIImgDataset_init_fields:
  "SPIImgDataset_init E fl_csv sz sd = (Inr self, t) \<Longrightarrow>
   label_seqi_dict self = build_label_seqi_dict [] 0 (imglabel_list self) \<and>
   num_stockimgs self = length (imglabel_list self) \<and> size_sample self = sz \<and> seed self = sd \<and>
   (\<exists>base. SPIImg_init E fl_csv = (Inr base, t) \<and> imglabel_list self = imglabel_list base \<and>
      psana_imgreader_dict self = psana_imgreader_dict base \<and> dataset_dict self = dataset_dict base)"
  by (auto simp: SPIImgDataset_init_def split: prod.splits sum.splits)

lemma ex_random_ok: "random_ok ex_random"
  by (simp add: random_ok_def ex_random_def)

text \<open>
  C2: the buckets built at construction partition the indices of the catalog. Their
  concatenation, sorted, is the list \<open>0, \<dots>, N - 1\<close>, so that every index stands in
  the table exactly once; the keys are distinct; every bucket is non-empty and holds
  only indices whose sample carries the bucket's label; every index stands in the
  bucket of its own sample's label.
\<close>

theorem label_buckets_partition:
  "SPIImgDataset_init E fl_csv sz sd = (Inr self, t) \<Longrightarrow>
   sort (concat (map snd (label_seqi_dict self))) = [0 ..< SPIImg_len self] \<and>
   distinct (map fst (label_seqi_dict self)) \<and>
   buckets_ok (\<lambda>i. sample_label (imglabel_list self ! i)) (SPIImg_len self) (label_seqi_dict self) \<and>
   (\<forall>i < SPIImg_len self. \<exists>ids.
      dict_getitem (label_seqi_dict self) (sample_label (imglabel_list self ! i)) = Inr ids \<and> i \<in> set ids)"
  using build_table [of "imglabel_list self"] SPIImgDataset_init_fields [of E fl_csv sz sd self t]
  by (simp add: SPIImg_len_def)


theorem label_buckets_partition_witness:
  "SPIImgDataset_init ex_env ex_csv 10 0 =
     (Inr ex_dataset, [DataSourceOpen ''exp=A:run=1:idx'', DataSourceOpen ''exp=B:run=1:idx'']) \<and>
   label_seqi_dict ex_dataset = [(1, [0, 1]), (0, [2, 3])] \<and>
   sort (concat (map snd (label_seqi_dict ex_dataset))) = [0 ..< SPIImg_len ex_dataset] \<and>
   SPIImg_len ex_dataset = 4 \<and>
   distinct (map fst (label_seqi_dict ex_dataset))"
  using label_buckets_partition [OF ex_dataset_init] ex_dataset_init
  by (simp add: SPIImg_len_def ex_dataset_def)

section \<open>The triplets drawn\<close>

lemma SPIImg_getitem_Inr:
  "SPIImg_getitem E self (int a) = (Inr (img, l), t) \<Longrightarrow>
   a < length (imglabel_list self) \<and> l = sample_label (imglabel_list self ! a)"
  by (auto simp: SPIImg_getitem_def py_getitem_def sample_label_def Let_def
      split: sum.splits prod.splits if_splits)

lemma random_sample1_Inr:
  "random_ok R \<Longrightarrow> random_sample1 R g xs = Inr (x, g') \<Longrightarrow> x \<in> set xs"
proof -
  assume ok: "random_ok R" and s: "random_sample1 R g xs = Inr (x, g')"
  have len: "0 < length xs" using s by (auto simp: random_sample1_def split: if_splits)
  then have "fst (randbelow R g (length xs)) < length xs" using ok by (simp add: random_ok_def)
  moreover have "x = xs ! fst (randbelow R g (length xs))"
    using s len by (auto simp: random_sample1_def split: if_splits prod.splits)
  ultimately show ?thesis by simp
qed

lemma neg_bucket_of_eq:
  "neg_bucket_of l d acc = acc @ concat (map snd (filter (\<lambda>(k, ids). k \<noteq> l) d))"
  by (induction l d acc rule: neg_bucket_of.induct) auto

lemma draw_triplet_Inr:
  assumes "draw_triplet R E self g0 = (Inr tr, g', t)"
  shows "\<exists>g1 g2 t1 t2 t3 lp ln.
     random_sample1 R g0 [0 ..< num_stockimgs self] = Inr (id_anchor tr, g1) \<and>
     SPIImg_getitem E self (int (id_anchor tr)) = (Inr (img_anchor tr, label_anchor tr), t1) \<and>
     dict_getitem (label_seqi_dict self) (label_anchor tr) = Inr (pos_bucket tr) \<and>
     neg_bucket tr = neg_bucket_of (label_anchor tr) (label_seqi_dict self) [] \<and>
     random_sample1 R g1 (pos_bucket tr) = Inr (id_pos tr, g2) \<and>
     random_sample1 R g2 (neg_bucket tr) = Inr (id_neg tr, g') \<and>
     SPIImg_getitem E self (int (id_pos tr)) = (Inr (img_pos tr, lp), t2) \<and>
     SPIImg_getitem E self (int (id_neg tr)) = (Inr (img_neg tr, ln), t3) \<and>
     t = t1 @ t2 @ t3"
  using assms unfolding draw_triplet_def Let_def
  by (auto split: sum.splits prod.splits)


lemma ex_getitem_locals:
  "SPIImgDataset_getitem_locals ex_random ex_env ex_dataset 0 3 = (Inr ex_triplet, 3, ex_trace)"
  by code_simp

text \<open>
  C3: when \<^verbatim>\<open>__getitem__\<close> of a constructed sampler returns, the three indices drawn are
  indices of the catalog; the positive sample carries the anchor's label, the negative
  sample another label, and the label returned is the anchor's; the positive is drawn
  from the anchor's whole bucket, which holds the anchor's own index, and the negative
  from the concatenation of all other buckets; the images returned are those of the
  three samples. The generator is assumed to draw below the bound it is given.
\<close>

theorem triplet_labels:
  assumes ok: "random_ok R"
    and init: "SPIImgDataset_init E fl_csv sz sd = (Inr self, t0)"
    and get: "SPIImgDataset_getitem_locals R E self g idx = (Inr tr, g', t)"
  shows "id_anchor tr < SPIImg_len self \<and> id_pos tr < SPIImg_len self \<and> id_neg tr < SPIImg_len self \<and>
    sample_label (imglabel_list self ! id_pos tr) = sample_label (imglabel_list self ! id_anchor tr) \<and>
    sample_label (imglabel_list self ! id_neg tr) \<noteq> sample_label (imglabel_list self ! id_anchor tr) \<and>
    label_anchor tr = sample_label (imglabel_list self ! id_anchor tr) \<and>
    dict_getitem (label_seqi_dict self) (label_anchor tr) = Inr (pos_bucket tr) \<and>
    id_pos tr \<in> set (pos_bucket tr) \<and> id_anchor tr \<in> set (pos_bucket tr) \<and>
    neg_bucket tr =
      concat (map snd (filter (\<lambda>(l, ids). l \<noteq> label_anchor tr) (label_seqi_dict self))) \<and>
    id_neg tr \<in> set (neg_bucket tr) \<and>
    fst (SPIImg_getitem E self (int (id_anchor tr))) = Inr (img_anchor tr, label_anchor tr) \<and>
    fst (SPIImg_getitem E self (int (id_pos tr))) = Inr (img_pos tr, label_anchor tr) \<and>
    (\<exists>l. l \<noteq> label_anchor tr \<and> fst (SPIImg_getitem E self (int (id_neg tr))) = Inr (img_neg tr, l)) \<and>
    SPIImgDataset_getitem R E self g idx =
      (Inr (img_anchor tr, img_pos tr, img_neg tr, label_anchor tr), g', t)"
proof -
  let ?il = "imglabel_list self"
  let ?d = "label_seqi_dict self"
  let ?lab = "\<lambda>i. sample_label (?il ! i)"
  have fields: "?d = build_label_seqi_dict [] 0 ?il" "num_stockimgs self = length ?il"
    using SPIImgDataset_init_fields [OF init] by simp_all
  have bok: "buckets_ok ?lab (length ?il) ?d"
    and own: "\<forall>i < length ?il. \<exists>ids. dict_getitem ?d (?lab i) = Inr ids \<and> i \<in> set ids"
    using build_table(3,4) [of ?il] fields(1) by simp_all
  have draw: "draw_triplet R E self (random_seed R (seed self) g) = (Inr tr, g', t)"
    using get by (simp add: SPIImgDataset_getitem_locals_def split: if_splits)
  from draw_triplet_Inr [OF draw] obtain g1 g2 t1 t2 t3 lp ln where
    sa: "random_sample1 R (random_seed R (seed self) g) [0 ..< num_stockimgs self] =
           Inr (id_anchor tr, g1)" and
    ga: "SPIImg_getitem E self (int (id_anchor tr)) = (Inr (img_anchor tr, label_anchor tr), t1)" and
    pb: "dict_getitem ?d (label_anchor tr) = Inr (pos_bucket tr)" and
    nb: "neg_bucket tr = neg_bucket_of (label_anchor tr) ?d []" and
    sp: "random_sample1 R g1 (pos_bucket tr) = Inr (id_pos tr, g2)" and
    sn: "random_sample1 R g2 (neg_bucket tr) = Inr (id_neg tr, g')" and
    gp: "SPIImg_getitem E self (int (id_pos tr)) = (Inr (img_pos tr, lp), t2)" and
    gn: "SPIImg_getitem E self (int (id_neg tr)) = (Inr (img_neg tr, ln), t3)"
    by blast
  have a: "id_anchor tr < length ?il" "label_anchor tr = ?lab (id_anchor tr)"
    using SPIImg_getitem_Inr [OF ga] by simp_all
  have p_in: "id_pos tr \<in> set (pos_bucket tr)" using random_sample1_Inr [OF ok sp] .
  have "(label_anchor tr, pos_bucket tr) \<in> set ?d" using pb by (rule dict_getitem_mem)
  then have p: "id_pos tr < length ?il" "?lab (id_pos tr) = label_anchor tr"
    using bok p_in unfolding buckets_ok_def by auto
  have a_in: "id_anchor tr \<in> set (pos_bucket tr)"
    using own a pb by auto
  have nb': "neg_bucket tr = concat (map snd (filter (\<lambda>(l, ids). l \<noteq> label_anchor tr) ?d))"
    using nb by (simp add: neg_bucket_of_eq)
  have n_in: "id_neg tr \<in> set (neg_bucket tr)" using random_sample1_Inr [OF ok sn] .
  then obtain l ids where lids: "(l, ids) \<in> set ?d" "l \<noteq> label_anchor tr" "id_neg tr \<in> set ids"
    unfolding nb' by auto
  then have n: "id_neg tr < length ?il" "?lab (id_neg tr) = l"
    using bok unfolding buckets_ok_def by auto
  have lp: "lp = label_anchor tr" using SPIImg_getitem_Inr [OF gp] p(2) by simp
  have ln: "ln \<noteq> label_anchor tr" using SPIImg_getitem_Inr [OF gn] n(2) lids(2) by simp
  have ret: "SPIImgDataset_getitem R E self g idx =
      (Inr (img_anchor tr, img_pos tr, img_neg tr, label_anchor tr), g', t)"
    using get by (simp add: SPIImgDataset_getitem_def)
  show ?thesis
    using a p n lids(2) pb p_in a_in nb' n_in ga gp gn lp ln ret
    by (simp add: SPIImg_len_def)
qed


theorem triplet_labels_witness:
  "random_ok ex_random \<and>
   SPIImgDataset_getitem_locals ex_random ex_env ex_dataset 0 3 = (Inr ex_triplet, 3, ex_trace) \<and>
   id_anchor ex_triplet = 0 \<and> id_pos ex_triplet = 1 \<and> id_neg ex_triplet = 2 \<and>
   sample_label (imglabel_list ex_dataset ! id_pos ex_triplet) =
     sample_label (imglabel_list ex_dataset ! id_anchor ex_triplet) \<and>
   sample_label (imglabel_list ex_dataset ! id_neg ex_triplet) \<noteq>
     sample_label (imglabel_list ex_dataset ! id_anchor ex_triplet) \<and>
   pos_bucket ex_triplet = [0, 1] \<and> neg_bucket ex_triplet = [2, 3] \<and>
   SPIImgDataset_getitem ex_random ex_env ex_dataset 0 3 =
     (Inr ([10, 1, 2, 3], [30, 1, 2, 3], [60, 1, 2, 3], 1), 3, ex_trace)"
  using triplet_labels [OF ex_random_ok ex_dataset_init ex_getitem_locals] ex_random_ok
    ex_getitem_locals
  by (simp add: ex_triplet_def)

section \<open>A catalog with a single label\<close>

lemma single_label_neg_empty:
  assumes bok: "buckets_ok (\<lambda>i. sample_label (il ! i)) (length il) d"
    and single: "\<forall>s \<in> set il. sample_label s = l"
  shows "neg_bucket_of l d [] = []"
proof -
  have "k = l" if "(k, ids) \<in> set d" for k ids
  proof -
    from that bok have ne: "ids \<noteq> []" and all: "\<forall>i \<in> set ids. i < length il \<and> sample_label (il ! i) = k"
      unfolding buckets_ok_def by auto
    from ne obtain i where "i \<in> set ids" by (cases ids) auto
    with all have "i < length il" "sample_label (il ! i) = k" by auto
    with single show ?thesis by auto
  qed
  then have "filter (\<lambda>(k, ids). k \<noteq> l) d = []"
    by (auto simp: filter_empty_conv)
  then show ?thesis by (simp add: neg_bucket_of_eq)
qed

lemma random_sample1_nonempty:
  "xs \<noteq> [] \<Longrightarrow>
   random_sample1 R g xs = Inr (xs ! fst (randbelow R g (length xs)), snd (randbelow R g (length xs)))"
  by (cases xs) (simp_all add: random_sample1_def case_prod_beta)

lemma single_label_draw:
  assumes ok: "random_ok R"
    and init: "SPIImgDataset_init E fl_csv sz sd = (Inr self, t0)"
    and single: "\<forall>s \<in> set (imglabel_list self). sample_label s = l"
  shows "fst (draw_triplet R E self g0) =
     (if imglabel_list self = [] then Inl sample_error
      else (case fst (SPIImg_getitem E self
                  (int (fst (randbelow R g0 (length (imglabel_list self)))))) of
              Inl e \<Rightarrow> Inl e
            | Inr r \<Rightarrow> Inl sample_error))"
proof -
  let ?il = "imglabel_list self"
  let ?d = "label_seqi_dict self"
  let ?g0 = "g0"
  have fields: "?d = build_label_seqi_dict [] 0 ?il" "num_stockimgs self = length ?il"
    using SPIImgDataset_init_fields [OF init] by simp_all
  have bok: "buckets_ok (\<lambda>i. sample_label (?il ! i)) (length ?il) ?d"
    and own: "\<forall>i < length ?il. \<exists>ids. dict_getitem ?d (sample_label (?il ! i)) = Inr ids \<and> i \<in> set ids"
    using build_table(3,4) [of ?il] fields(1) by simp_all
  show ?thesis
  proof (cases "?il = []")
    case True
    then show ?thesis
      by (simp add: draw_triplet_def random_sample1_def fields(2))
  next
    case False
    define a where "a = fst (randbelow R ?g0 (length ?il))"
    define g1 where "g1 = snd (randbelow R ?g0 (length ?il))"
    have a: "a < length ?il" using ok False by (simp add: a_def random_ok_def)
    have sa: "random_sample1 R ?g0 [0 ..< num_stockimgs self] = Inr (a, g1)"
      using random_sample1_nonempty [of "[0 ..< length ?il]" R ?g0] False a
      by (simp add: fields(2) a_def g1_def)
    obtain r t1 where ga: "SPIImg_getitem E self (int a) = (r, t1)"
      by (cases "SPIImg_getitem E self (int a)")
    show ?thesis
    proof (cases r)
      case (Inl e)
      then show ?thesis using False sa ga
        by (simp add: draw_triplet_def a_def [symmetric])
    next
      case (Inr p)
      obtain img la where p: "p = (img, la)" by (cases p)
      have la: "la = l" using SPIImg_getitem_Inr [of E self a img la t1] ga Inr p single a by simp
      obtain pos where pos: "dict_getitem ?d l = Inr pos" "a \<in> set pos"
        using own a single by fastforce
      have "pos \<noteq> []" using pos(2) by auto
      then have sp: "random_sample1 R g1 pos =
          Inr (pos ! fst (randbelow R g1 (length pos)), snd (randbelow R g1 (length pos)))"
        by (rule random_sample1_nonempty)
      have neg: "neg_bucket_of l ?d [] = []"
        using single_label_neg_empty [OF bok single] .
      have sn: "random_sample1 R (snd (randbelow R g1 (length pos))) ([] :: nat list) = Inl sample_error"
        by (simp add: random_sample1_def)
      show ?thesis using False sa ga Inr p la pos(1) sp neg sn
        by (simp add: draw_triplet_def a_def [symmetric])
    qed
  qed
qed

lemma ex_dataset_B_init:
  "SPIImgDataset_init ex_env ex_csv_B 10 0 = (Inr ex_dataset_B, [DataSourceOpen ''exp=B:run=1:idx''])"
  by code_simp

lemma ex_dataset_short_init:
  "SPIImgDataset_init ex_env_short ex_csv_B 10 0 =
     (Inr ex_dataset_short, [DataSourceOpen ''exp=B:run=1:idx''])"
  by code_simp

text \<open>
  C10, as stated, fails where the anchor's image cannot be read: the anchor is read
  before the negatives are drawn. In the catalog of run B alone, with one event in the
  run and the label file naming event 1, every sample carries the label 0, the request
  index 0 is in range, and \<^verbatim>\<open>__getitem__\<close> fails with the range error of the timestamp
  list, not with the error of sampling an empty population.
\<close>

theorem single_label_anchor_unreadable:
  "SPIImgDataset_init ex_env_short ex_csv_B 10 0 =
     (Inr ex_dataset_short, [DataSourceOpen ''exp=B:run=1:idx'']) \<and>
   list_all (\<lambda>s. sample_label s = 0) (imglabel_list ex_dataset_short) \<and>
   (0 :: int) \<in> {0 ..< size_sample ex_dataset_short} \<and>
   fst (SPIImgDataset_getitem ex_random ex_env_short ex_dataset_short 0 0) = Inl list_index_error \<and>
   list_index_error \<noteq> sample_error"
  by code_simp

text \<open>
  C10 (amended): in a constructed sampler whose samples all carry one label, the pool of
  negatives is empty and \<^verbatim>\<open>__getitem__\<close> fails for every request index below
  \<open>size_sample\<close>, never with the range error of the index check: it fails with the error
  of sampling an empty population, unless reading the anchor's image fails first, and
  then with that error. The generator is assumed to draw below the bound it is given.
\<close>

theorem single_label_getitem_fails:
  assumes ok: "random_ok R"
    and init: "SPIImgDataset_init E fl_csv sz sd = (Inr self, t0)"
    and single: "\<forall>s \<in> set (imglabel_list self). sample_label s = l"
    and idx: "idx < size_sample self"
  shows "neg_bucket_of l (label_seqi_dict self) [] = [] \<and>
    (\<exists>e. fst (SPIImgDataset_getitem R E self g idx) = Inl e \<and> e \<noteq> range_error \<and>
       (e = sample_error \<or>
        imglabel_list self \<noteq> [] \<and>
        fst (SPIImg_getitem E self
              (int (fst (randbelow R (seed_fn R (seed self)) (length (imglabel_list self)))))) = Inl e))"
proof -
  let ?il = "imglabel_list self"
  have fields: "label_seqi_dict self = build_label_seqi_dict [] 0 ?il"
    using SPIImgDataset_init_fields [OF init] by simp
  have bok: "buckets_ok (\<lambda>i. sample_label (?il ! i)) (length ?il) (label_seqi_dict self)"
    using build_table(3) [of ?il] fields by simp
  have neg: "neg_bucket_of l (label_seqi_dict self) [] = []"
    using single_label_neg_empty [OF bok single] .
  let ?g0 = "random_seed R (seed self) g"
  have g0: "?g0 = seed_fn R (seed self)" by (simp add: random_seed_def)
  have d: "\<exists>e. fst (draw_triplet R E self ?g0) = Inl e \<and>
       (e = sample_error \<or>
        ?il \<noteq> [] \<and>
        fst (SPIImg_getitem E self (int (fst (randbelow R (seed_fn R (seed self)) (length ?il))))) = Inl e)"
    unfolding single_label_draw [OF ok init single] g0
    by (auto split: sum.splits)
  then obtain e where e: "fst (draw_triplet R E self ?g0) = Inl e"
    "e = sample_error \<or>
        ?il \<noteq> [] \<and>
        fst (SPIImg_getitem E self (int (fst (randbelow R (seed_fn R (seed self)) (length ?il))))) = Inl e"
    by blast
  have ne: "e \<noteq> range_error" using draw_triplet_not_range_error [of R E self ?g0] e(1) by auto
  have "fst (SPIImgDataset_getitem R E self g idx) = Inl e"
    using idx e(1)
    by (auto simp: SPIImgDataset_getitem_def SPIImgDataset_getitem_locals_def split: prod.splits sum.splits)
  then show ?thesis using neg ne e(2) by blast
qed


theorem single_label_getitem_fails_witness:
  "random_ok ex_random \<and>
   SPIImgDataset_init ex_env ex_csv_B 10 0 = (Inr ex_dataset_B, [DataSourceOpen ''exp=B:run=1:idx'']) \<and>
   list_all (\<lambda>s. sample_label s = 0) (imglabel_list ex_dataset_B) \<and>
   (3 :: int) < size_sample ex_dataset_B \<and>
   neg_bucket_of 0 (label_seqi_dict ex_dataset_B) [] = [] \<and>
   fst (SPIImgDataset_getitem ex_random ex_env ex_dataset_B 0 3) = Inl sample_error"
proof -
  have single: "\<forall>s \<in> set (imglabel_list ex_dataset_B). sample_label s = 0"
    by (simp add: ex_dataset_B_def sample_label_def)
  have idx: "(3 :: int) < size_sample ex_dataset_B" by (simp add: ex_dataset_B_def)
  have val: "fst (SPIImgDataset_getitem ex_random ex_env ex_dataset_B 0 3) = Inl sample_error"
    by code_simp
  show ?thesis
    using single_label_getitem_fails [OF ex_random_ok ex_dataset_B_init single idx, of 0]
      ex_random_ok ex_dataset_B_init single idx val
    by (simp add: list_all_iff)
qed

section \<open>The length and the range check of the sampler\<close>

text \<open>
  C7, as stated, fails for a negative request index: \<^verbatim>\<open>idx >= self.size_sample\<close> is the
  only check, so the index \<open>-1\<close>, which lies outside \<open>[0, size_sample)\<close>, is not refused
  and a triplet comes back.
\<close>

theorem getitem_negative_index_accepted:
  "SPIImgDataset_init ex_env ex_csv 10 0 = (Inr ex_dataset, ex_opens) \<and>
   (- 1 :: int) \<notin> {0 ..< size_sample ex_dataset} \<and>
   fst (SPIImgDataset_getitem ex_random ex_env ex_dataset 0 (- 1)) =
     Inr ([10, 1, 2, 3], [30, 1, 2, 3], [60, 1, 2, 3], 1)"
  by code_simp

text \<open>
  C7 (amended): \<^verbatim>\<open>__len__\<close> returns the configured \<open>size_sample\<close>, and \<^verbatim>\<open>__getitem__\<close> fails with
  the range error of its index check exactly for the request indices at or above
  \<open>size_sample\<close>; every index below it, a negative one included, passes the check.
\<close>

theorem SPIImgDataset_len_and_range_check:
  "SPIImgDataset_len self = size_sample self \<and>
   (fst (SPIImgDataset_getitem R E self g idx) = Inl range_error \<longleftrightarrow> size_sample self \<le> idx)"
proof -
  have "fst (SPIImgDataset_getitem R E self g idx) = Inl range_error
        \<longleftrightarrow> fst (SPIImgDataset_getitem_locals R E self g idx) = Inl range_error"
    by (auto simp: SPIImgDataset_getitem_def split: prod.splits sum.splits)
  then show ?thesis
    using draw_triplet_not_range_error [of R E self "random_seed R (seed self) g"]
    by (simp add: SPIImgDataset_len_def SPIImgDataset_getitem_locals_def)
qed

section \<open>The range of the image accessor\<close>

text \<open>
  C8, as stated, fails for a negative event number: \<^verbatim>\<open>self.timestamps[int(event_num)]\<close>
  counts a negative index from the end, so \<^verbatim>\<open>get(-1)\<close> on a run of six events, outside
  \<open>[0, 6)\<close>, returns the image at the last timestamp.
\<close>

theorem PsanaImg_get_negative_event:
  "PsanaImg_init ex_env ''A'' ''1'' ''idx'' ''pnccd'' = (Inr ex_reader_A, [DataSourceOpen ''exp=A:run=1:idx'']) \<and>
   (- 1 :: int) \<notin> {0 ..< int (length (timestamps ex_reader_A))} \<and>
   fst (PsanaImg_get ex_env ex_reader_A (- 1)) = Inr [[60, 1], [2, 3]]"
  by code_simp

text \<open>
  C8 (amended): \<^verbatim>\<open>get(event_num)\<close> succeeds exactly when \<open>-n \<le> event_num < n\<close> for the
  number \<open>n\<close> of timestamps, with the image at the timestamp of that position (counted
  from the end when the number is negative), and fails with the range error of the
  sequence for every other event number.
\<close>

theorem PsanaImg_get_range:
  "fst (PsanaImg_get E self event_num) =
     (let n = int (length (timestamps self)) in
      if 0 \<le> event_num \<and> event_num < n then
        Inr (psana_image E (datasource_id self) (detector self) (timestamps self ! nat event_num))
      else if - n \<le> event_num \<and> event_num < 0 then
        Inr (psana_image E (datasource_id self) (detector self)
               (timestamps self ! nat (n + event_num)))
      else Inl list_index_error)"
  by (simp add: PsanaImg_get_def py_getitem_def list_index_error_def Let_def)

section \<open>Reseeding on every call\<close>

text \<open>
  C4: \<^verbatim>\<open>__getitem__\<close> sets the generator to the state of the construction seed before it
  draws, so for a fixed sampler every request index that passes the check gives the same
  indices, images, label, final generator state and trace, whatever the state of the
  generator was when the call started.
\<close>

theorem getitem_same_triplet_for_every_request:
  "idx1 < size_sample self \<Longrightarrow> idx2 < size_sample self \<Longrightarrow>
   SPIImgDataset_getitem_locals R E self g1 idx1 = SPIImgDataset_getitem_locals R E self g2 idx2 \<and>
   SPIImgDataset_getitem R E self g1 idx1 = SPIImgDataset_getitem R E self g2 idx2"
  by (simp add: SPIImgDataset_getitem_def SPIImgDataset_getitem_locals_def random_seed_def)

theorem getitem_same_triplet_witness:
  "(0 :: int) < size_sample ex_dataset \<and> (9 :: int) < size_sample ex_dataset \<and>
   SPIImgDataset_getitem_locals ex_random ex_env ex_dataset 5 0 =
     SPIImgDataset_getitem_locals ex_random ex_env ex_dataset 77 9 \<and>
   SPIImgDataset_getitem ex_random ex_env ex_dataset 5 0 =
     SPIImgDataset_getitem ex_random ex_env ex_dataset 77 9"
proof -
  have h0: "(0 :: int) < size_sample ex_dataset" by (simp add: ex_dataset_def)
  have h9: "(9 :: int) < size_sample ex_dataset" by (simp add: ex_dataset_def)
  show ?thesis
    using h0 h9 getitem_same_triplet_for_every_request [OF h0 h9, of ex_random ex_env 5 77]
    by simp
qed

end
